theory Spec2Isabelle
  imports Complex_Main "HOL-Library.Word"
begin

section \<open>Data model\<close>

text \<open>
  The storefront of \<^verbatim>\<open>src/frontend/src/App.js\<close> keeps three pieces of state: the session
  (\<^verbatim>\<open>AuthProvider\<close>), the cart (\<^verbatim>\<open>CartProvider\<close>) and the selected view (\<^verbatim>\<open>App\<close>), and
  mirrors two of them into the browser's \<^verbatim>\<open>localStorage\<close>.

  A JavaScript string is a sequence of 16-bit code units. \<open>js\<close> turns a literal of this
  theory into one.
\<close>

type_synonym code_unit = "16 word"

type_synonym jstring = "code_unit list"

definition js :: "string \<Rightarrow> jstring" where
  "js s = map (\<lambda>c. of_nat (of_char c)) s"

text \<open>
  A product is the object the backend sent. A number is modelled by the exact number it
  stands for: a quantity is an \<open>int\<close>, a price a \<open>rat\<close>. What JavaScript computes from
  prices goes through an arithmetic that is a parameter (\<open>js_arith\<close> below); quantities are
  integers, on which JavaScript is exact up to \<open>2^53\<close>.
\<close>

record product =
  product_id :: jstring
  name :: jstring
  description :: jstring
  price :: rat
  category :: jstring
  inventory :: int
  images :: "jstring list"

record line_item =
  product :: product
  quantity :: int

text \<open>The values of JSON: what \<^verbatim>\<open>JSON.parse\<close> returns and what a response body can be.\<close>

datatype json =
    JNull
  | JBool bool
  | JNum rat
  | JStr jstring
  | JArr "json list"
  | JObj "(jstring \<times> json) list"

type_synonym storage = "string \<rightharpoonup> jstring"

text \<open>
  One record holds the \<^verbatim>\<open>useState\<close> cells of the three components and the
  \<^verbatim>\<open>localStorage\<close> they share. Every handler of the source closes over the cells of the
  latest render and is called once per event, so a call is a function from the state before
  it to the state after it. The \<open>user\<close> cell holds whatever was passed to \<^verbatim>\<open>setUser\<close>:
  \<open>JNull\<close> is \<^verbatim>\<open>null\<close>, the absent user.
\<close>

record app_state =
  user :: json
  loading :: bool
  cart :: "line_item list"
  cartCount :: int
  currentView :: string
  localStorage :: storage

datatype screen = Home | Products | Cart | Orders | Profile

section \<open>\<^verbatim>\<open>JSON.stringify\<close>\<close>

definition digit_char :: "nat \<Rightarrow> code_unit" where
  "digit_char d = of_nat (48 + d)"

function print_nat :: "nat \<Rightarrow> jstring" where
  "print_nat n =
     (if n < 10 then [digit_char n] else print_nat (n div 10) @ [digit_char (n mod 10)])"
  by pat_completeness auto
termination
  by (relation "measure id") auto

declare print_nat.simps [simp del]

text \<open>
  The digits after the decimal point of \<open>f\<close>, \<open>0 \<le> f < 1\<close>, most significant first. The
  expansion of a number with denominator \<open>d\<close> that terminates does so within \<open>d\<close> digits,
  which is the fuel \<open>print_number\<close> gives.
\<close>

fun frac_digits :: "nat \<Rightarrow> rat \<Rightarrow> jstring" where
  "frac_digits 0 f = []"
| "frac_digits (Suc n) f =
     (if f = 0 then []
      else digit_char (nat \<lfloor>f * 10\<rfloor>) # frac_digits n (f * 10 - of_int \<lfloor>f * 10\<rfloor>))"

text \<open>
  A number is written as its plain decimal expansion, after a minus sign (0x2D) when it is
  negative. (JavaScript switches to exponent notation below \<open>1e-6\<close> and from \<open>1e21\<close> on;
  both texts denote the same number.)
\<close>

definition print_number :: "rat \<Rightarrow> jstring" where
  "print_number r =
     (let a = \<bar>r\<bar>; f = a - of_int \<lfloor>a\<rfloor>
      in (if r < 0 then [0x2D] else []) @ print_nat (nat \<lfloor>a\<rfloor>) @
         (if f = 0 then [] else 0x2E # frac_digits (nat (snd (quotient_of r))) f))"

definition hex_char :: "nat \<Rightarrow> code_unit" where
  "hex_char d = (if d < 10 then of_nat (48 + d) else of_nat (87 + d))"

text \<open>\<^verbatim>\<open>\uXXXX\<close>, in lower-case hexadecimal digits.\<close>

definition unicode_text :: "code_unit \<Rightarrow> jstring" where
  "unicode_text c =
     [0x5C, 0x75, hex_char (unat c div 4096), hex_char (unat c div 256 mod 16),
      hex_char (unat c div 16 mod 16), hex_char (unat c mod 16)]"

text \<open>
  The escapes of \<^verbatim>\<open>JSON.stringify\<close>: the quote (0x22) and the backslash (0x5C) get a
  backslash, the control characters below 0x20 their short form (\<open>b f n r t\<close>) or
  \<^verbatim>\<open>\u00XX\<close>, and a surrogate that is not half of a pair its \<^verbatim>\<open>\uXXXX\<close>.
\<close>

definition escape_char :: "code_unit \<Rightarrow> jstring" where
  "escape_char c =
     (if c = 0x22 then [0x5C, 0x22]
      else if c = 0x5C then [0x5C, 0x5C]
      else if c = 0x08 then [0x5C, 0x62]
      else if c = 0x0C then [0x5C, 0x66]
      else if c = 0x0A then [0x5C, 0x6E]
      else if c = 0x0D then [0x5C, 0x72]
      else if c = 0x09 then [0x5C, 0x74]
      else if unat c < 0x20 then unicode_text c
      else [c])"

definition is_high :: "code_unit \<Rightarrow> bool" where
  "is_high c = (0xD800 \<le> unat c \<and> unat c \<le> 0xDBFF)"

definition is_low :: "code_unit \<Rightarrow> bool" where
  "is_low c = (0xDC00 \<le> unat c \<and> unat c \<le> 0xDFFF)"

definition escape_unit :: "code_unit \<Rightarrow> jstring" where
  "escape_unit c = (if is_high c \<or> is_low c then unicode_text c else escape_char c)"

fun escape :: "jstring \<Rightarrow> jstring" where
  "escape [] = []"
| "escape [c] = escape_unit c"
| "escape (c # d # r) =
     (if is_high c \<and> is_low d then c # d # escape r else escape_unit c @ escape (d # r))"

definition print_string :: "jstring \<Rightarrow> jstring" where
  "print_string s = 0x22 # escape s @ [0x22]"

fun commas :: "jstring list \<Rightarrow> jstring" where
  "commas [] = []"
| "commas [x] = x"
| "commas (x # y # ys) = x @ 0x2C # commas (y # ys)"

text \<open>Brackets are 0x5B and 0x5D, braces 0x7B and 0x7D, the colon 0x3A, the comma 0x2C.\<close>

fun JSON_stringify :: "json \<Rightarrow> jstring" where
  "JSON_stringify JNull = js ''null''"
| "JSON_stringify (JBool b) = (if b then js ''true'' else js ''false'')"
| "JSON_stringify (JNum r) = print_number r"
| "JSON_stringify (JStr s) = print_string s"
| "JSON_stringify (JArr vs) = 0x5B # commas (map JSON_stringify vs) @ [0x5D]"
| "JSON_stringify (JObj kvs) =
     0x7B # commas (map (\<lambda>(k, v). print_string k @ 0x3A # JSON_stringify v) kvs) @ [0x7D]"

text \<open>
  The cart as the JSON value \<^verbatim>\<open>JSON.stringify(newCart)\<close> walks: an array of
  \<^verbatim>\<open>{product, quantity}\<close> objects, the product with the fields the backend gave it.
\<close>

definition product_to_json :: "product \<Rightarrow> json" where
  "product_to_json p = JObj
     [(js ''id'', JStr (product_id p)),
      (js ''name'', JStr (name p)),
      (js ''description'', JStr (description p)),
      (js ''price'', JNum (price p)),
      (js ''category'', JStr (category p)),
      (js ''inventory'', JNum (of_int (inventory p))),
      (js ''images'', JArr (map JStr (images p)))]"

definition item_to_json :: "line_item \<Rightarrow> json" where
  "item_to_json item = JObj
     [(js ''product'', product_to_json (product item)),
      (js ''quantity'', JNum (of_int (quantity item)))]"

definition cart_to_json :: "line_item list \<Rightarrow> json" where
  "cart_to_json c = JArr (map item_to_json c)"

section \<open>\<^verbatim>\<open>JSON.parse\<close>\<close>

text \<open>
  A recursive-descent reader of the JSON grammar (RFC 8259); \<open>None\<close> is the
  \<^verbatim>\<open>SyntaxError\<close> of \<^verbatim>\<open>JSON.parse\<close>. White space is the space, the tab, the line feed and
  the carriage return.
\<close>

definition is_ws :: "code_unit \<Rightarrow> bool" where
  "is_ws c = (c = 0x20 \<or> c = 0x09 \<or> c = 0x0A \<or> c = 0x0D)"

definition skip_ws :: "jstring \<Rightarrow> jstring" where
  "skip_ws s = dropWhile is_ws s"

definition is_digit :: "code_unit \<Rightarrow> bool" where
  "is_digit c = (48 \<le> unat c \<and> unat c \<le> 57)"

definition digit_val :: "code_unit \<Rightarrow> nat" where
  "digit_val c = unat c - 48"

definition digits_val :: "jstring \<Rightarrow> nat" where
  "digits_val ds = foldl (\<lambda>a c. a * 10 + digit_val c) 0 ds"

fun frac_val :: "jstring \<Rightarrow> rat" where
  "frac_val [] = 0"
| "frac_val (c # ds) = (of_nat (digit_val c) + frac_val ds) / 10"

text \<open>The fraction of a number: a point (0x2E) and at least one digit, or nothing.\<close>

definition parse_fraction :: "jstring \<Rightarrow> (rat \<times> jstring) option" where
  "parse_fraction s =
     (case s of
        [] \<Rightarrow> Some (0, [])
      | c # r \<Rightarrow>
          if c = 0x2E
          then (if takeWhile is_digit r = [] then None
                else Some (frac_val (takeWhile is_digit r), dropWhile is_digit r))
          else Some (0, s))"

text \<open>The sign of an exponent: a plus (0x2B), a minus (0x2D), or nothing.\<close>

definition parse_sign :: "jstring \<Rightarrow> int \<times> jstring" where
  "parse_sign s =
     (case s of
        [] \<Rightarrow> (1, [])
      | c # r \<Rightarrow> if c = 0x2B then (1, r) else if c = 0x2D then (- 1, r) else (1, s))"

text \<open>The exponent of a number: \<open>e\<close> (0x65) or \<open>E\<close> (0x45), a sign and digits, or nothing.\<close>

definition parse_exponent :: "jstring \<Rightarrow> (int \<times> jstring) option" where
  "parse_exponent s =
     (case s of
        [] \<Rightarrow> Some (0, [])
      | c # r \<Rightarrow>
          if c = 0x65 \<or> c = 0x45
          then (let (sg, r1) = parse_sign r in
                if takeWhile is_digit r1 = [] then None
                else Some (sg * int (digits_val (takeWhile is_digit r1)), dropWhile is_digit r1))
          else Some (0, s))"

definition scale10 :: "int \<Rightarrow> rat \<Rightarrow> rat" where
  "scale10 e r = (if 0 \<le> e then r * 10 ^ nat e else r / 10 ^ nat (- e))"

text \<open>
  The digits of a number after its sign: integer part (no leading zero, 0x30, before
  another digit), fraction, exponent.
\<close>

definition parse_magnitude :: "rat \<Rightarrow> jstring \<Rightarrow> (rat \<times> jstring) option" where
  "parse_magnitude sg s =
     (let ip = takeWhile is_digit s
      in if ip = [] \<or> (1 < length ip \<and> hd ip = 0x30) then None
         else case parse_fraction (dropWhile is_digit s) of
                None \<Rightarrow> None
              | Some (f, s3) \<Rightarrow>
                  (case parse_exponent s3 of
                     None \<Rightarrow> None
                   | Some (e, s4) \<Rightarrow> Some (scale10 e (sg * (of_nat (digits_val ip) + f)), s4)))"

definition parse_number :: "jstring \<Rightarrow> (rat \<times> jstring) option" where
  "parse_number s =
     (if s \<noteq> [] \<and> hd s = 0x2D then parse_magnitude (- 1) (tl s) else parse_magnitude 1 s)"

definition hex_val :: "code_unit \<Rightarrow> nat option" where
  "hex_val c =
     (let k = unat c in
      if 48 \<le> k \<and> k \<le> 57 then Some (k - 48)
      else if 97 \<le> k \<and> k \<le> 102 then Some (k - 87)
      else if 65 \<le> k \<and> k \<le> 70 then Some (k - 55)
      else None)"

text \<open>
  The character after a backslash: quote, backslash, slash (0x2F), or one of
  \<open>b f n r t\<close> (0x62, 0x66, 0x6E, 0x72, 0x74).
\<close>

definition unescape :: "code_unit \<Rightarrow> code_unit option" where
  "unescape e =
     (if e = 0x22 then Some 0x22
      else if e = 0x5C then Some 0x5C
      else if e = 0x2F then Some 0x2F
      else if e = 0x62 then Some 0x08
      else if e = 0x66 then Some 0x0C
      else if e = 0x6E then Some 0x0A
      else if e = 0x72 then Some 0x0D
      else if e = 0x74 then Some 0x09
      else None)"

definition unicode_escape :: "jstring \<Rightarrow> code_unit option" where
  "unicode_escape hs =
     (case map hex_val hs of
        [Some a, Some b, Some c, Some d] \<Rightarrow> Some (of_nat (((a * 16 + b) * 16 + c) * 16 + d))
      | _ \<Rightarrow> None)"

definition cons_char ::
  "code_unit \<Rightarrow> (jstring \<times> jstring) option \<Rightarrow> (jstring \<times> jstring) option" where
  "cons_char c res = map_option (\<lambda>(t, r). (c # t, r)) res"

text \<open>
  The characters of a string after its opening quote, up to the closing one; \<open>u\<close> is
  0x75, and a control character below 0x20 is not allowed unescaped.
\<close>

function parse_string_body :: "jstring \<Rightarrow> (jstring \<times> jstring) option" where
  "parse_string_body [] = None"
| "parse_string_body (c # r) =
     (if c = 0x22 then Some ([], r)
      else if c = 0x5C then
        (case r of
           [] \<Rightarrow> None
         | e # r1 \<Rightarrow>
             if e = 0x75
             then (case unicode_escape (take 4 r1) of
                     None \<Rightarrow> None
                   | Some ch \<Rightarrow> cons_char ch (parse_string_body (drop 4 r1)))
             else (case unescape e of
                     None \<Rightarrow> None
                   | Some ch \<Rightarrow> cons_char ch (parse_string_body r1)))
      else if unat c < 0x20 then None
      else cons_char c (parse_string_body r))"
  by pat_completeness auto
termination
  by (relation "measure length") auto

text \<open>
  The fuel bounds the depth of the recursion. \<open>JSON_parse\<close> gives one unit per character
  of the text and one more, and that is no restriction: whatever the reader finds with any
  fuel, \<open>JSON_parse\<close> finds (lemma \<open>JSON_parse_any_fuel\<close>).
\<close>

fun parse_value :: "nat \<Rightarrow> jstring \<Rightarrow> (json \<times> jstring) option"
  and parse_elements :: "nat \<Rightarrow> jstring \<Rightarrow> (json list \<times> jstring) option"
  and parse_members :: "nat \<Rightarrow> jstring \<Rightarrow> ((jstring \<times> json) list \<times> jstring) option"
where
  "parse_value 0 s = None"
| "parse_value (Suc n) s =
     (case skip_ws s of
        [] \<Rightarrow> None
      | c # r \<Rightarrow>
          if c = 0x5B then
            (if skip_ws r \<noteq> [] \<and> hd (skip_ws r) = 0x5D
             then Some (JArr [], tl (skip_ws r))
             else map_option (\<lambda>(vs, r'). (JArr vs, r')) (parse_elements n r))
          else if c = 0x7B then
            (if skip_ws r \<noteq> [] \<and> hd (skip_ws r) = 0x7D
             then Some (JObj [], tl (skip_ws r))
             else map_option (\<lambda>(kvs, r'). (JObj kvs, r')) (parse_members n r))
          else if c = 0x22 then
            map_option (\<lambda>(t, r'). (JStr t, r')) (parse_string_body r)
          else if c = 0x2D \<or> is_digit c then
            map_option (\<lambda>(x, r'). (JNum x, r')) (parse_number (c # r))
          else if take 4 (c # r) = js ''null'' then Some (JNull, drop 4 (c # r))
          else if take 4 (c # r) = js ''true'' then Some (JBool True, drop 4 (c # r))
          else if take 5 (c # r) = js ''false'' then Some (JBool False, drop 5 (c # r))
          else None)"
| "parse_elements 0 s = None"
| "parse_elements (Suc n) s =
     (case parse_value n s of
        None \<Rightarrow> None
      | Some (v, r) \<Rightarrow>
          (case skip_ws r of
             [] \<Rightarrow> None
           | c # r' \<Rightarrow>
               if c = 0x2C then
                 map_option (\<lambda>(vs, r''). (v # vs, r'')) (parse_elements n r')
               else if c = 0x5D then Some ([v], r')
               else None))"
| "parse_members 0 s = None"
| "parse_members (Suc n) s =
     (case skip_ws s of
        [] \<Rightarrow> None
      | q # r \<Rightarrow>
          if q \<noteq> 0x22 then None
          else
            (case parse_string_body r of
               None \<Rightarrow> None
             | Some (k, r1) \<Rightarrow>
                 (case skip_ws r1 of
                    [] \<Rightarrow> None
                  | c1 # r2 \<Rightarrow>
                      if c1 \<noteq> 0x3A then None
                      else
                        (case parse_value n r2 of
                           None \<Rightarrow> None
                         | Some (v, r3) \<Rightarrow>
                             (case skip_ws r3 of
                                [] \<Rightarrow> None
                              | c3 # r4 \<Rightarrow>
                                  if c3 = 0x2C then
                                    map_option (\<lambda>(kvs, r5). ((k, v) # kvs, r5)) (parse_members n r4)
                                  else if c3 = 0x7D then Some ([(k, v)], r4)
                                  else None)))))"

definition JSON_parse :: "jstring \<Rightarrow> json option" where
  "JSON_parse s =
     (case parse_value (Suc (length s)) s of
        None \<Rightarrow> None
      | Some (v, r) \<Rightarrow> if skip_ws r = [] then Some v else None)"

section \<open>Parsed values and the data model\<close>

text \<open>
  A property of a parsed object, looked up as JavaScript does: the last of several equal
  keys wins, and \<open>None\<close> is \<^verbatim>\<open>undefined\<close>.
\<close>

definition field :: "string \<Rightarrow> (jstring \<times> json) list \<Rightarrow> json option" where
  "field k kvs = map_of (rev kvs) (js k)"

definition json_string :: "json option \<Rightarrow> jstring option" where
  "json_string v = (case v of Some (JStr t) \<Rightarrow> Some t | _ \<Rightarrow> None)"

definition json_number :: "json option \<Rightarrow> rat option" where
  "json_number v = (case v of Some (JNum r) \<Rightarrow> Some r | _ \<Rightarrow> None)"

definition json_int :: "json option \<Rightarrow> int option" where
  "json_int v =
     (case v of Some (JNum r) \<Rightarrow> if of_int \<lfloor>r\<rfloor> = r then Some \<lfloor>r\<rfloor> else None | _ \<Rightarrow> None)"

definition json_strings :: "json option \<Rightarrow> jstring list option" where
  "json_strings v =
     (case v of Some (JArr vs) \<Rightarrow> those (map (\<lambda>x. json_string (Some x)) vs) | _ \<Rightarrow> None)"

definition read_product :: "json option \<Rightarrow> product option" where
  "read_product v =
     (case v of
        Some (JObj kvs) \<Rightarrow>
          (case (json_string (field ''id'' kvs), json_string (field ''name'' kvs),
                 json_string (field ''description'' kvs), json_number (field ''price'' kvs),
                 json_string (field ''category'' kvs), json_int (field ''inventory'' kvs),
                 json_strings (field ''images'' kvs)) of
             (Some i, Some n, Some d, Some p, Some c, Some k, Some g) \<Rightarrow>
               Some \<lparr>product_id = i, name = n, description = d, price = p, category = c,
                     inventory = k, images = g\<rparr>
           | _ \<Rightarrow> None)
      | _ \<Rightarrow> None)"

definition read_item :: "json \<Rightarrow> line_item option" where
  "read_item v =
     (case v of
        JObj kvs \<Rightarrow>
          (case (read_product (field ''product'' kvs), json_int (field ''quantity'' kvs)) of
             (Some p, Some q) \<Rightarrow> Some \<lparr>product = p, quantity = q\<rparr>
           | _ \<Rightarrow> None)
      | _ \<Rightarrow> None)"

text \<open>
  A parsed value is a line item of the data model when it is exactly the object of one:
  the properties of the data model, in its order, and no others. Then the typed line item
  stands for the JavaScript object without loss.
\<close>

definition item_of_json :: "json \<Rightarrow> line_item option" where
  "item_of_json v =
     (case read_item v of
        None \<Rightarrow> None
      | Some item \<Rightarrow> if item_to_json item = v then Some item else None)"

text \<open>
  Where the untyped \<^verbatim>\<open>sum + item.quantity\<close> of the hydration throws. \<^verbatim>\<open>item.quantity\<close>
  throws a \<^verbatim>\<open>TypeError\<close> on \<^verbatim>\<open>null\<close> and is \<^verbatim>\<open>undefined\<close> on every value without the
  property. \<^verbatim>\<open>+\<close> turns an array or an object into a primitive first, an array by joining
  the primitives of its elements, an object by its \<^verbatim>\<open>toString\<close>; that throws a
  \<^verbatim>\<open>TypeError\<close> exactly when an object met on the way has a property \<^verbatim>\<open>toString\<close> of
  its own, which, coming from JSON, is no function.
\<close>

fun no_primitive :: "json \<Rightarrow> bool" where
  "no_primitive (JObj kvs) = (js ''toString'' \<in> set (map fst kvs))"
| "no_primitive (JArr vs) = list_ex no_primitive vs"
| "no_primitive v = False"

definition quantity_throws :: "json \<Rightarrow> bool" where
  "quantity_throws item =
     (case item of
        JNull \<Rightarrow> True
      | JObj kvs \<Rightarrow> (case field ''quantity'' kvs of None \<Rightarrow> False | Some q \<Rightarrow> no_primitive q)
      | _ \<Rightarrow> False)"

section \<open>Values that survive serialisation\<close>

text \<open>
  A number has a plain decimal text when some power of ten makes it an integer; for a
  number with denominator \<open>d\<close> an exponent of at most \<open>d\<close> does. Every finite IEEE double
  is of this kind (it is an integer times a power of two), and so is every number written
  in a JSON text; a rational such as \<open>1/3\<close> is no JavaScript number.
\<close>

definition decimal :: "rat \<Rightarrow> bool" where
  "decimal r =
     (\<exists>k\<in>set [0..<Suc (nat (snd (quotient_of r)))]. of_int \<lfloor>r * 10 ^ k\<rfloor> = r * 10 ^ k)"

fun wf_json :: "json \<Rightarrow> bool" where
  "wf_json (JNum r) = decimal r"
| "wf_json (JArr vs) = list_all wf_json vs"
| "wf_json (JObj kvs) = list_all (\<lambda>kv. wf_json (snd kv)) kvs"
| "wf_json v = True"

definition wf_product :: "product \<Rightarrow> bool" where
  "wf_product p = decimal (price p)"

text \<open>
  What may follow a number in a text: anything that does not continue the number (no
  digit, no point, no \<open>e\<close>, no \<open>E\<close>).
\<close>

definition ok_rest :: "jstring \<Rightarrow> bool" where
  "ok_rest rest =
     (rest = [] \<or> \<not> is_digit (hd rest) \<and> hd rest \<noteq> 0x2E \<and> hd rest \<noteq> 0x65 \<and> hd rest \<noteq> 0x45)"

section \<open>The cart store (\<^verbatim>\<open>CartProvider\<close>)\<close>

text \<open>\<^verbatim>\<open>newCart.reduce((sum, item) => sum + item.quantity, 0)\<close>\<close>

definition reduce_quantity :: "line_item list \<Rightarrow> int" where
  "reduce_quantity c = foldl (\<lambda>sum item. sum + quantity item) 0 c"

definition setItem :: "string \<Rightarrow> jstring \<Rightarrow> storage \<Rightarrow> storage" where
  "setItem k v st = st(k \<mapsto> v)"

definition removeItem :: "string \<Rightarrow> storage \<Rightarrow> storage" where
  "removeItem k st = st(k := None)"

text \<open>
  What a piece of the program does: it returns, it throws, or it returns with a cart that
  is no list of line items of the data model. In the last case the source has stored the
  parsed array as its cart and whatever the untyped \<^verbatim>\<open>reduce\<close> made of it as its count
  (\<^verbatim>\<open>NaN\<close>, a string, a number); the model keeps the array and follows the program no
  further.
\<close>

datatype js_error = SyntaxError | TypeError

datatype 'a outcome = Done 'a | Throws js_error | Foreign "json list"

text \<open>
  The effect that runs once when the provider mounts. \<^verbatim>\<open>if (savedCart)\<close> is false for a
  missing key and for the empty string. \<^verbatim>\<open>JSON.parse\<close> throws a \<^verbatim>\<open>SyntaxError\<close> on a text
  that is not JSON, \<^verbatim>\<open>parsedCart.reduce\<close> a \<^verbatim>\<open>TypeError\<close> on a value that is not an array,
  and the callback of the \<^verbatim>\<open>reduce\<close> where \<open>quantity_throws\<close> says; the effect catches
  none of them.
\<close>

definition hydrate :: "app_state \<Rightarrow> app_state outcome" where
  "hydrate s =
     (case localStorage s ''cart'' of
        None \<Rightarrow> Done s
      | Some savedCart \<Rightarrow>
          if savedCart = [] then Done s
          else
            (case JSON_parse savedCart of
               None \<Rightarrow> Throws SyntaxError
             | Some parsedCart \<Rightarrow>
                 (case parsedCart of
                    JArr vs \<Rightarrow>
                      if list_ex quantity_throws vs then Throws TypeError
                      else
                        (case those (map item_of_json vs) of
                           None \<Rightarrow> Foreign vs
                         | Some c \<Rightarrow> Done (s\<lparr>cart := c, cartCount := reduce_quantity c\<rparr>))
                  | _ \<Rightarrow> Throws TypeError)))"

text \<open>
  The mutating calls. Each computes \<^verbatim>\<open>newCart\<close>, stores it, recomputes the count from it and
  writes its text under the \<open>cart\<close> key. A call \<^verbatim>\<open>addToCart(product)\<close> without a quantity is
  \<open>addToCart product 1\<close>, by the default of the parameter.
\<close>

definition addToCart :: "product \<Rightarrow> int \<Rightarrow> app_state \<Rightarrow> app_state" where
  "addToCart p q s =
     (let existingItem = find (\<lambda>item. product_id (product item) = product_id p) (cart s);
          newCart =
            (if existingItem \<noteq> None
             then map (\<lambda>item. if product_id (product item) = product_id p
                              then item\<lparr>quantity := quantity item + q\<rparr> else item) (cart s)
             else cart s @ [\<lparr>product = p, quantity = q\<rparr>])
      in s\<lparr>cart := newCart,
           cartCount := reduce_quantity newCart,
           localStorage := setItem ''cart'' (JSON_stringify (cart_to_json newCart)) (localStorage s)\<rparr>)"

definition removeFromCart :: "jstring \<Rightarrow> app_state \<Rightarrow> app_state" where
  "removeFromCart productId s =
     (let newCart = filter (\<lambda>item. product_id (product item) \<noteq> productId) (cart s)
      in s\<lparr>cart := newCart,
           cartCount := reduce_quantity newCart,
           localStorage := setItem ''cart'' (JSON_stringify (cart_to_json newCart)) (localStorage s)\<rparr>)"

definition updateQuantity :: "jstring \<Rightarrow> int \<Rightarrow> app_state \<Rightarrow> app_state" where
  "updateQuantity productId q s =
     (if q \<le> 0 then removeFromCart productId s
      else
        let newCart = map (\<lambda>item. if product_id (product item) = productId
                                   then item\<lparr>quantity := q\<rparr> else item) (cart s)
        in s\<lparr>cart := newCart,
             cartCount := reduce_quantity newCart,
             localStorage := setItem ''cart'' (JSON_stringify (cart_to_json newCart)) (localStorage s)\<rparr>)"

definition clearCart :: "app_state \<Rightarrow> app_state" where
  "clearCart s = s\<lparr>cart := [], cartCount := 0, localStorage := removeItem ''cart'' (localStorage s)\<rparr>"

text \<open>
  The arithmetic of JavaScript numbers is a parameter: \<open>num\<close> is the number (an IEEE double)
  that stands for an exact value, \<open>add\<close> and \<open>mul\<close> are its \<^verbatim>\<open>+\<close> and \<^verbatim>\<open>*\<close>. Nothing is
  assumed of them. \<open>exact\<close> is the arithmetic that does not round.
\<close>

record 'n js_arith =
  num :: "rat \<Rightarrow> 'n"
  add :: "'n \<Rightarrow> 'n \<Rightarrow> 'n"
  mul :: "'n \<Rightarrow> 'n \<Rightarrow> 'n"

definition exact :: "rat js_arith" where
  "exact = \<lparr>num = (\<lambda>r. r), add = (\<lambda>a b. a + b), mul = (\<lambda>a b. a * b)\<rparr>"

text \<open>\<^verbatim>\<open>cart.reduce((sum, item) => sum + (item.product.price * item.quantity), 0)\<close>\<close>

definition getTotal :: "'n js_arith \<Rightarrow> app_state \<Rightarrow> 'n" where
  "getTotal ar s =
     foldl (\<lambda>sum item. add ar sum
                (mul ar (num ar (price (product item))) (num ar (of_int (quantity item)))))
       (num ar 0) (cart s)"

section \<open>The session manager (\<^verbatim>\<open>AuthProvider\<close>)\<close>

text \<open>
  The backend is outside the repository: \<^verbatim>\<open>axios.get\<close> with the token as
  \<^verbatim>\<open>X-Session-ID\<close> either resolves, with a body that is any value, or rejects; what it does
  for a token is a parameter of the model. \<^verbatim>\<open>fetchProfile\<close> passes the body to
  \<^verbatim>\<open>setUser\<close> without looking at it.
\<close>

datatype axios_error = NetworkError | BadStatus nat | OtherError string

datatype 'a promise = Resolved 'a | Rejected axios_error

definition fetchProfile :: "(jstring \<Rightarrow> json promise) \<Rightarrow> jstring \<Rightarrow> app_state \<Rightarrow> app_state" where
  "fetchProfile backend token s =
     (case backend token of
        Resolved data \<Rightarrow> s\<lparr>user := data, loading := False\<rparr>
      | Rejected error \<Rightarrow>
          s\<lparr>localStorage := removeItem ''session_token'' (localStorage s), loading := False\<rparr>)"

text \<open>The start-up effect; \<^verbatim>\<open>if (token)\<close> is false for a missing and for an empty token.\<close>

definition authStartup :: "(jstring \<Rightarrow> json promise) \<Rightarrow> app_state \<Rightarrow> app_state" where
  "authStartup backend s =
     (case localStorage s ''session_token'' of
        None \<Rightarrow> s\<lparr>loading := False\<rparr>
      | Some token \<Rightarrow>
          if token = [] then s\<lparr>loading := False\<rparr> else fetchProfile backend token s)"

definition logout :: "app_state \<Rightarrow> app_state" where
  "logout s = s\<lparr>localStorage := removeItem ''session_token'' (localStorage s), user := JNull\<rparr>"

text \<open>
  \<^verbatim>\<open>!user\<close>, the test of the components for the unauthenticated state: \<^verbatim>\<open>null\<close>,
  \<^verbatim>\<open>false\<close>, \<open>0\<close> and the empty string are falsy, every other value is a user.
\<close>

definition authenticated :: "app_state \<Rightarrow> bool" where
  "authenticated s =
     (user s \<noteq> JNull \<and> user s \<noteq> JBool False \<and> user s \<noteq> JNum 0 \<and> user s \<noteq> JStr [])"

section \<open>The view router (\<^verbatim>\<open>App\<close>)\<close>

definition renderView :: "app_state \<Rightarrow> screen" where
  "renderView s =
     (if currentView s = ''home'' then Home
      else if currentView s = ''products'' then Products
      else if currentView s = ''cart'' then Cart
      else if currentView s = ''orders'' then Orders
      else if currentView s = ''profile'' then Profile
      else Home)"

definition navigateTo :: "string \<Rightarrow> app_state \<Rightarrow> app_state" where
  "navigateTo view s = s\<lparr>currentView := view\<rparr>"

text \<open>The cells as \<^verbatim>\<open>useState\<close> initialises them, over a given \<^verbatim>\<open>localStorage\<close>.\<close>

definition initial_state :: "storage \<Rightarrow> app_state" where
  "initial_state st =
     \<lparr>user = JNull, loading = True, cart = [], cartCount = 0,
      currentView = ''home'', localStorage = st\<rparr>"

section \<open>Sequences of calls\<close>

text \<open>
  The calls a user of the cart store can make, and \<open>Restart\<close>: the page is loaded again, so
  that a fresh store is hydrated from what the last one left in \<^verbatim>\<open>localStorage\<close>.
\<close>

datatype cart_call =
    AddToCart product int
  | RemoveFromCart jstring
  | UpdateQuantity jstring int
  | ClearCart
  | Restart

fun call :: "cart_call \<Rightarrow> app_state \<Rightarrow> app_state outcome" where
  "call (AddToCart p q) s = Done (addToCart p q s)"
| "call (RemoveFromCart pid) s = Done (removeFromCart pid s)"
| "call (UpdateQuantity pid q) s = Done (updateQuantity pid q s)"
| "call ClearCart s = Done (clearCart s)"
| "call Restart s = hydrate (initial_state (localStorage s))"

fun calls :: "cart_call list \<Rightarrow> app_state \<Rightarrow> app_state outcome" where
  "calls [] s = Done s"
| "calls (c # cs) s =
     (case call c s of Done s' \<Rightarrow> calls cs s' | Throws e \<Rightarrow> Throws e | Foreign vs \<Rightarrow> Foreign vs)"

fun wf_call :: "cart_call \<Rightarrow> bool" where
  "wf_call (AddToCart p q) = wf_product p"
| "wf_call c = True"

text \<open>The product identifiers of the line items, in cart order.\<close>

definition ids :: "line_item list \<Rightarrow> jstring list" where
  "ids c = map (\<lambda>item. product_id (product item)) c"

text \<open>
  What the store keeps true of \<^verbatim>\<open>localStorage\<close>: the \<open>cart\<close> key holds the text of the
  current cart, or is absent while the cart is empty; and the products are serialisable.
\<close>

definition persisted :: "app_state \<Rightarrow> bool" where
  "persisted s =
     ((case localStorage s ''cart'' of
         None \<Rightarrow> cart s = []
       | Some t \<Rightarrow> t = JSON_stringify (cart_to_json (cart s))) \<and>
      list_all (\<lambda>item. wf_product (product item)) (cart s))"

definition cart_inv :: "app_state \<Rightarrow> bool" where
  "cart_inv s = (cartCount s = sum_list (map quantity (cart s)) \<and> distinct (ids (cart s)))"

text \<open>Every line item has a quantity above 0; a call that does not add a quantity of 0 or less.\<close>

definition positive :: "app_state \<Rightarrow> bool" where
  "positive s = list_all (\<lambda>item. 0 < quantity item) (cart s)"

fun positive_call :: "cart_call \<Rightarrow> bool" where
  "positive_call (AddToCart p q) = (0 < q)"
| "positive_call c = True"

section \<open>Notions used in the proofs\<close>

text \<open>A character that can begin a JSON value (none of the separators, no white space).\<close>

definition starts_value :: "code_unit \<Rightarrow> bool" where
  "starts_value c = (\<not> is_ws c \<and> c \<noteq> 0x5D \<and> c \<noteq> 0x7D \<and> c \<noteq> 0x2C \<and> c \<noteq> 0x3A)"

text \<open>A character that stands for itself inside a string.\<close>

definition plain :: "code_unit \<Rightarrow> bool" where
  "plain c = (c \<noteq> 0x22 \<and> c \<noteq> 0x5C \<and> \<not> unat c < 0x20)"

text \<open>The text of \<open>v\<close> is read back as \<open>v\<close>, whatever follows it, given fuel for its length.\<close>

definition reads :: "json \<Rightarrow> bool" where
  "reads v = (\<forall>n rest. length (JSON_stringify v) \<le> n \<longrightarrow> ok_rest rest \<longrightarrow>
     parse_value n (JSON_stringify v @ rest) = Some (v, rest))"

text \<open>
  A reader that succeeded with fuel \<open>n\<close> consumed a character, and succeeds with the same
  result on any fuel that covers the characters it consumed.
\<close>

definition fuel_ok :: "(nat \<Rightarrow> jstring \<Rightarrow> ('a \<times> jstring) option) \<Rightarrow> nat \<Rightarrow> bool" where
  "fuel_ok p n = (\<forall>s x r. p n s = Some (x, r) \<longrightarrow>
     length r < length s \<and> (\<forall>m. length s - length r \<le> m \<longrightarrow> p m s = Some (x, r)))"

abbreviation member_text :: "jstring \<times> json \<Rightarrow> jstring" where
  "member_text \<equiv> (\<lambda>(k, v). print_string k @ 0x3A # JSON_stringify v)"

section \<open>Concrete inputs\<close>

definition example_product :: product where
  "example_product =
     \<lparr>product_id = js ''p1'', name = js ''Mug'', description = js ''A mug'', price = 999 / 100,
      category = js ''kitchen'', inventory = 10, images = [js ''mug.png'']\<rparr>"

definition example_user :: json where
  "example_user =
     JObj [(js ''id'', JStr (js ''u1'')), (js ''name'', JStr (js ''Ada'')),
           (js ''email'', JStr (js ''ada@example.org''))]"

text \<open>A backend that rejects every credential with status 401.\<close>

definition rejecting_backend :: "jstring \<Rightarrow> json promise" where
  "rejecting_backend token = Rejected (BadStatus 401)"

text \<open>A backend that answers every request with status 200 and a body that is no profile.\<close>

definition garbling_backend :: "jstring \<Rightarrow> json promise" where
  "garbling_backend token = Resolved (JStr (js ''<html>Bad Gateway</html>''))"

text \<open>An arithmetic that rounds every result down to a multiple of 1/100.\<close>

definition cents :: "rat js_arith" where
  "cents =
     \<lparr>num = (\<lambda>r. of_int \<lfloor>r * 100\<rfloor> / 100),
      add = (\<lambda>a b. of_int \<lfloor>(a + b) * 100\<rfloor> / 100),
      mul = (\<lambda>a b. of_int \<lfloor>(a * b) * 100\<rfloor> / 100)\<rparr>"



section \<open>Auxiliary facts\<close>

subsection \<open>Numbers\<close>

lemma unat_of_nat_small: "n < 65536 \<Longrightarrow> unat (of_nat n :: code_unit) = n"
  by (simp add: unat_of_nat)

lemma code_unit_eq_iff: "(c = d) = (unat c = unat (d :: code_unit))"
  by (simp add: word_unat_eq_iff)

lemma of_char_digit_char: "d < 10 \<Longrightarrow> unat (digit_char d) = 48 + d"
  unfolding digit_char_def by (rule unat_of_nat_small) simp

lemma is_digit_digit_char: "d < 10 \<Longrightarrow> is_digit (digit_char d)"
  by (simp add: is_digit_def of_char_digit_char)

lemma digit_val_digit_char: "d < 10 \<Longrightarrow> digit_val (digit_char d) = d"
  by (simp add: digit_val_def of_char_digit_char)

lemma digit_char_eq_zero: "d < 10 \<Longrightarrow> digit_char d = 0x30 \<longleftrightarrow> d = 0"
  by (simp add: code_unit_eq_iff of_char_digit_char)

lemma print_nat_digits: "\<forall>c\<in>set (print_nat n). is_digit c"
  by (induction n rule: print_nat.induct) (subst print_nat.simps, simp add: is_digit_digit_char)

lemma print_nat_nonempty: "print_nat n \<noteq> []"
  by (subst print_nat.simps) simp

lemma digits_val_snoc: "digits_val (ds @ [c]) = digits_val ds * 10 + digit_val c"
  by (simp add: digits_val_def)

lemma digits_val_print_nat: "digits_val (print_nat n) = n"
proof (induction n rule: print_nat.induct)
  case (1 n)
  show ?case
  proof (cases "n < 10")
    case True
    then show ?thesis
      by (subst print_nat.simps) (simp add: digits_val_def digit_val_digit_char)
  next
    case False
    with 1 have "digits_val (print_nat (n div 10)) = n div 10" by simp
    with False show ?thesis
      by (subst print_nat.simps) (simp add: digits_val_snoc digit_val_digit_char)
  qed
qed

lemma hd_print_nat: "0 < n \<Longrightarrow> hd (print_nat n) \<noteq> 0x30"
proof (induction n rule: print_nat.induct)
  case (1 n)
  show ?case
  proof (cases "n < 10")
    case True
    with 1(2) show ?thesis
      by (subst print_nat.simps) (simp add: digit_char_eq_zero)
  next
    case False
    then have "0 < n div 10" by simp
    with 1(1) False have "hd (print_nat (n div 10)) \<noteq> 0x30" by simp
    with False show ?thesis
      by (subst print_nat.simps) (simp add: print_nat_nonempty)
  qed
qed

lemma print_nat_no_leading_zero:
  "\<not> (1 < length (print_nat n) \<and> hd (print_nat n) = 0x30)"
proof (cases "n = 0")
  case True
  then show ?thesis by (subst print_nat.simps) simp
next
  case False
  then show ?thesis using hd_print_nat [of n] by simp
qed

lemma frac_digits_sound:
  assumes "0 \<le> f" "f < 1" "k \<le> n" "of_int \<lfloor>f * 10 ^ k\<rfloor> = f * 10 ^ k"
  shows "(\<forall>c\<in>set (frac_digits n f). is_digit c) \<and> frac_val (frac_digits n f) = f \<and>
         (f \<noteq> 0 \<longrightarrow> frac_digits n f \<noteq> [])"
  using assms
proof (induction n arbitrary: f k)
  case 0
  then have "of_int \<lfloor>f\<rfloor> = f" by simp
  moreover from 0 have "\<lfloor>f\<rfloor> = 0" by (simp add: floor_eq_iff)
  ultimately show ?case by simp
next
  case (Suc n)
  show ?case
  proof (cases "f = 0")
    case True
    then show ?thesis by simp
  next
    case False
    define d where "d = \<lfloor>f * 10\<rfloor>"
    define f' where "f' = f * 10 - of_int d"
    have d0: "0 \<le> d" using Suc.prems(1) by (simp add: d_def)
    have d9: "d < 10" using Suc.prems(2) by (simp add: d_def floor_less_iff)
    have f'0: "0 \<le> f'" by (simp add: f'_def d_def)
    have f'1: "f' < 1" unfolding f'_def d_def by linarith
    have kpos: "0 < k"
    proof (rule ccontr)
      assume "\<not> 0 < k"
      then have "of_int \<lfloor>f\<rfloor> = f" using Suc.prems(4) by simp
      moreover have "\<lfloor>f\<rfloor> = 0" using Suc.prems(1,2) by (simp add: floor_eq_iff)
      ultimately show False using False by simp
    qed
    then obtain j where k: "k = Suc j" by (cases k) auto
    have "f' * 10 ^ j = f * 10 ^ k - of_int (d * 10 ^ j)"
      by (simp add: f'_def k algebra_simps)
    also have "\<dots> = of_int \<lfloor>f * 10 ^ k\<rfloor> - of_int (d * 10 ^ j)"
      by (simp only: Suc.prems(4))
    also have "\<dots> = of_int (\<lfloor>f * 10 ^ k\<rfloor> - d * 10 ^ j)"
      by (simp only: of_int_diff)
    finally have int': "of_int \<lfloor>f' * 10 ^ j\<rfloor> = f' * 10 ^ j"
      by (simp only: floor_of_int)
    have jn: "j \<le> n" using Suc.prems(3) k by simp
    note IH = Suc.IH [OF f'0 f'1 jn int']
    have dn: "nat d < 10" using d0 d9 by simp
    have fd: "frac_digits (Suc n) f = digit_char (nat d) # frac_digits n f'"
      using False by (simp add: d_def f'_def)
    have e: "(of_nat (digit_val (digit_char (nat d))) + f') / 10 = f"
      using d0 by (simp add: digit_val_digit_char dn f'_def)
    show ?thesis
      unfolding fd using IH dn e by (simp add: is_digit_digit_char del: frac_digits.simps)
  qed
qed

lemma takeWhile_digits:
  assumes "\<forall>c\<in>set ds. is_digit c" and "rest = [] \<or> \<not> is_digit (hd rest)"
  shows "takeWhile is_digit (ds @ rest) = ds" and "dropWhile is_digit (ds @ rest) = rest"
proof -
  have t: "takeWhile is_digit rest = []" and d: "dropWhile is_digit rest = rest"
    using assms(2) by (cases rest; simp)+
  from assms(1) show "takeWhile is_digit (ds @ rest) = ds"
    by (simp add: takeWhile_append2 t)
  from assms(1) show "dropWhile is_digit (ds @ rest) = rest"
    by (simp add: dropWhile_append2 d)
qed

lemma is_int_iff: "(of_int \<lfloor>x\<rfloor> = x) = (x \<in> \<int>)" for x :: rat
  by (metis Ints_of_int Ints_cases floor_of_int)

lemma decimal_frac:
  assumes "decimal r"
  obtains k where "k \<le> nat (snd (quotient_of r))"
    and "of_int \<lfloor>(\<bar>r\<bar> - of_int \<lfloor>\<bar>r\<bar>\<rfloor>) * 10 ^ k\<rfloor> = (\<bar>r\<bar> - of_int \<lfloor>\<bar>r\<bar>\<rfloor>) * 10 ^ k"
proof -
  from assms obtain k where "k \<in> set [0..<Suc (nat (snd (quotient_of r)))]"
    and "of_int \<lfloor>r * 10 ^ k\<rfloor> = r * 10 ^ k"
    unfolding decimal_def by blast
  then have k: "k \<le> nat (snd (quotient_of r))" and i: "r * 10 ^ k \<in> \<int>"
    by (simp del: upt_Suc, metis Ints_of_int)
  have "\<bar>r\<bar> * 10 ^ k \<in> \<int>"
  proof (cases "r < 0")
    case True
    then have "\<bar>r\<bar> * 10 ^ k = - (r * 10 ^ k)" by simp
    with i show ?thesis by (simp only: Ints_minus)
  next
    case False
    with i show ?thesis by simp
  qed
  moreover have "of_int \<lfloor>\<bar>r\<bar>\<rfloor> * (10::rat) ^ k \<in> \<int>"
    by (metis Ints_of_int Ints_mult Ints_numeral Ints_power)
  ultimately have "\<bar>r\<bar> * 10 ^ k - of_int \<lfloor>\<bar>r\<bar>\<rfloor> * 10 ^ k \<in> \<int>"
    by (rule Ints_diff)
  then have "(\<bar>r\<bar> - of_int \<lfloor>\<bar>r\<bar>\<rfloor>) * 10 ^ k \<in> \<int>"
    by (simp add: algebra_simps)
  then have "of_int \<lfloor>(\<bar>r\<bar> - of_int \<lfloor>\<bar>r\<bar>\<rfloor>) * 10 ^ k\<rfloor> = (\<bar>r\<bar> - of_int \<lfloor>\<bar>r\<bar>\<rfloor>) * 10 ^ k"
    by (simp only: is_int_iff)
  with k show thesis by (rule that)
qed

lemma is_digit_codes:
  "\<not> is_digit (0x2E)" "\<not> is_digit (0x2D)"
  by (simp_all add: is_digit_def)

lemma hd_print_nat_digit: "is_digit (hd (print_nat n))"
  using print_nat_digits [of n] print_nat_nonempty [of n] by (cases "print_nat n") auto

lemma parse_fraction_none:
  "ok_rest rest \<Longrightarrow> parse_fraction rest = Some (0, rest)"
  by (cases rest) (auto simp add: parse_fraction_def ok_rest_def)

lemma parse_exponent_none:
  "ok_rest rest \<Longrightarrow> parse_exponent rest = Some (0, rest)"
  by (cases rest) (auto simp add: parse_exponent_def ok_rest_def)

lemma ok_rest_digit: "ok_rest rest \<Longrightarrow> rest = [] \<or> \<not> is_digit (hd rest)"
  by (auto simp add: ok_rest_def)

lemma parse_unsigned:
  assumes "0 \<le> a" and "k \<le> m"
    and "of_int \<lfloor>(a - of_int \<lfloor>a\<rfloor>) * 10 ^ k\<rfloor> = (a - of_int \<lfloor>a\<rfloor>) * 10 ^ k"
    and "ok_rest rest"
  defines "f \<equiv> a - of_int \<lfloor>a\<rfloor>"
  defines "tx \<equiv> print_nat (nat \<lfloor>a\<rfloor>) @ (if f = 0 then [] else 0x2E # frac_digits m f) @ rest"
  shows "takeWhile is_digit tx = print_nat (nat \<lfloor>a\<rfloor>)"
    and "parse_fraction (dropWhile is_digit tx) = Some (f, rest)"
proof -
  have f0: "0 \<le> f" and f1: "f < 1"
    unfolding f_def by linarith+
  note fd = frac_digits_sound [OF f0 f1 assms(2) assms(3) [folded f_def]]
  let ?tail = "(if f = 0 then [] else 0x2E # frac_digits m f) @ rest"
  have tail: "?tail = [] \<or> \<not> is_digit (hd ?tail)"
    using ok_rest_digit [OF assms(4)] by (simp add: is_digit_codes)
  show "takeWhile is_digit tx = print_nat (nat \<lfloor>a\<rfloor>)"
    unfolding tx_def using takeWhile_digits(1) [OF print_nat_digits tail] .
  have dw: "dropWhile is_digit tx = ?tail"
    unfolding tx_def using takeWhile_digits(2) [OF print_nat_digits tail] .
  show "parse_fraction (dropWhile is_digit tx) = Some (f, rest)"
  proof (cases "f = 0")
    case True
    then show ?thesis by (simp add: dw parse_fraction_none [OF assms(4)])
  next
    case False
    have "takeWhile is_digit (frac_digits m f @ rest) = frac_digits m f"
      and "dropWhile is_digit (frac_digits m f @ rest) = rest"
      using takeWhile_digits [OF _ ok_rest_digit [OF assms(4)]] fd by blast+
    with False fd show ?thesis
      by (simp add: dw parse_fraction_def)
  qed
qed

lemma parse_number_print:
  assumes "decimal r" and "ok_rest rest"
  shows "parse_number (print_number r @ rest) = Some (r, rest)"
proof -
  define a where "a = \<bar>r\<bar>"
  define f where "f = a - of_int \<lfloor>a\<rfloor>"
  define m where "m = nat (snd (quotient_of r))"
  define tx where
    "tx = print_nat (nat \<lfloor>a\<rfloor>) @ (if f = 0 then [] else 0x2E # frac_digits m f) @ rest"
  from decimal_frac [OF assms(1)] obtain k where k: "k \<le> m"
    and i: "of_int \<lfloor>(a - of_int \<lfloor>a\<rfloor>) * 10 ^ k\<rfloor> = (a - of_int \<lfloor>a\<rfloor>) * 10 ^ k"
    unfolding a_def m_def by blast
  have a0: "0 \<le> a" by (simp add: a_def)
  note u = parse_unsigned [OF a0 k i assms(2), folded f_def, folded tx_def]
  have pr: "print_number r @ rest = (if r < 0 then [0x2D] else []) @ tx"
    unfolding print_number_def Let_def tx_def f_def a_def m_def by simp
  have hd_txt: "tx \<noteq> []" "hd tx \<noteq> 0x2D"
    using hd_print_nat_digit [of "nat \<lfloor>a\<rfloor>"] print_nat_nonempty [of "nat \<lfloor>a\<rfloor>"]
    by (auto simp add: tx_def is_digit_codes)
  have val: "of_nat (nat \<lfloor>a\<rfloor>) + f = a"
    using a0 by (simp add: f_def)
  have core: "parse_magnitude sg tx = Some (sg * a, rest)" for sg
    using print_nat_no_leading_zero [of "nat \<lfloor>a\<rfloor>"] val
    by (simp add: parse_magnitude_def Let_def u print_nat_nonempty
        parse_exponent_none [OF assms(2)] digits_val_print_nat scale10_def)
  show ?thesis
  proof (cases "r < 0")
    case True
    then have "- a = r" by (simp add: a_def)
    with True core [of "- 1"] show ?thesis
      by (simp add: pr parse_number_def)
  next
    case False
    then have "a = r" by (simp add: a_def)
    with False core [of 1] hd_txt show ?thesis
      by (simp add: pr parse_number_def)
  qed
qed

subsection \<open>Strings\<close>

lemma unat_code_unit_less: "unat (c :: code_unit) < 65536"
  using unsigned_less [of c, where 'a = nat] by simp

lemma hex_val_hex_char: "d < 16 \<Longrightarrow> hex_val (hex_char d) = Some d"
proof (cases "d < 10")
  case True
  then have "unat (hex_char d) = 48 + d"
    unfolding hex_char_def by (simp only: if_True) (rule unat_of_nat_small, simp)
  with True show ?thesis by (simp add: hex_val_def)
next
  case False
  assume "d < 16"
  with False have "unat (hex_char d) = 87 + d"
    unfolding hex_char_def by (simp only: if_False) (rule unat_of_nat_small, simp)
  with False \<open>d < 16\<close> show ?thesis by (simp add: hex_val_def)
qed

lemma hex_digits_value:
  fixes k :: nat
  shows "((k div 4096 * 16 + k div 256 mod 16) * 16 + k div 16 mod 16) * 16 + k mod 16 = k"
proof -
  have a: "k div 4096 = k div 256 div 16" and b: "k div 256 = k div 16 div 16"
    by (simp_all add: div_mult2_eq [symmetric])
  have 1: "k div 4096 * 16 + k div 256 mod 16 = k div 256"
    unfolding a by (rule div_mult_mod_eq)
  have 2: "k div 256 * 16 + k div 16 mod 16 = k div 16"
    unfolding b by (rule div_mult_mod_eq)
  have 3: "k div 16 * 16 + k mod 16 = k"
    by (rule div_mult_mod_eq)
  show ?thesis by (simp only: 1 2 3)
qed

lemma unicode_escape_text:
  "unicode_escape [hex_char (unat c div 4096), hex_char (unat c div 256 mod 16),
     hex_char (unat c div 16 mod 16), hex_char (unat c mod 16)] = Some c"
proof -
  have "unat c div 4096 < 16"
    using unat_code_unit_less [of c] by simp
  then have h: "hex_val (hex_char (unat c div 4096)) = Some (unat c div 4096)"
    "hex_val (hex_char (unat c div 256 mod 16)) = Some (unat c div 256 mod 16)"
    "hex_val (hex_char (unat c div 16 mod 16)) = Some (unat c div 16 mod 16)"
    "hex_val (hex_char (unat c mod 16)) = Some (unat c mod 16)"
    by (simp_all add: hex_val_hex_char)
  have "(of_nat (((unat c div 4096 * 16 + unat c div 256 mod 16) * 16 + unat c div 16 mod 16) * 16
      + unat c mod 16) :: code_unit) = c"
    by (simp only: hex_digits_value) simp
  then show ?thesis
    by (simp only: unicode_escape_def list.map h list.case option.case)
qed

lemma parse_unicode_text:
  "parse_string_body (unicode_text c @ rest) = cons_char c (parse_string_body rest)"
  by (simp add: unicode_text_def unicode_escape_text)

lemma parse_escape_char:
  "parse_string_body (escape_char c @ rest) = cons_char c (parse_string_body rest)"
proof -
  consider (special) "c \<in> {0x22, 0x5C, 0x08, 0x0C, 0x0A, 0x0D, 0x09}"
    | (low) "c \<notin> {0x22, 0x5C, 0x08, 0x0C, 0x0A, 0x0D, 0x09}" "unat c < 0x20"
    | (other) "c \<notin> {0x22, 0x5C, 0x08, 0x0C, 0x0A, 0x0D, 0x09}" "\<not> unat c < 0x20"
    by blast
  then show ?thesis
  proof cases
    case special
    then show ?thesis
      by (auto simp add: escape_char_def unescape_def)
  next
    case low
    then have "escape_char c = unicode_text c"
      by (simp add: escape_char_def)
    then show ?thesis by (simp only: parse_unicode_text)
  next
    case other
    then have "escape_char c = [c]"
      by (simp add: escape_char_def)
    with other show ?thesis by simp
  qed
qed

lemma parse_escape_unit:
  "parse_string_body (escape_unit c @ rest) = cons_char c (parse_string_body rest)"
  by (simp only: escape_unit_def parse_unicode_text parse_escape_char split: if_split) simp

lemma parse_plain:
  "plain c \<Longrightarrow> parse_string_body (c # rest) = cons_char c (parse_string_body rest)"
  by (simp add: plain_def)

lemma plain_surrogate: "is_high c \<or> is_low c \<Longrightarrow> plain c"
  by (auto simp add: is_high_def is_low_def plain_def code_unit_eq_iff)

lemma parse_string_body_print:
  "parse_string_body (escape s @ 0x22 # rest) = Some (s, rest)"
proof (induction s rule: escape.induct)
  case 1
  show ?case by simp
next
  case (2 c)
  have "parse_string_body (escape_unit c @ 0x22 # rest) = cons_char c (parse_string_body (0x22 # rest))"
    by (rule parse_escape_unit)
  then show ?case by (simp add: cons_char_def)
next
  case (3 c d r)
  show ?case
  proof (cases "is_high c \<and> is_low d")
    case True
    then have pc: "plain c" and pd: "plain d" by (simp_all add: plain_surrogate)
    have e: "escape (c # d # r) @ 0x22 # rest = c # d # escape r @ 0x22 # rest"
      by (simp only: escape.simps if_P [OF True] append_Cons)
    have "parse_string_body (c # d # escape r @ 0x22 # rest) =
        cons_char c (cons_char d (parse_string_body (escape r @ 0x22 # rest)))"
      by (simp only: parse_plain [OF pc] parse_plain [OF pd])
    also have "\<dots> = Some (c # d # r, rest)"
      by (simp only: 3(1) [OF True]) (simp add: cons_char_def)
    finally show ?thesis by (simp only: e)
  next
    case False
    have e: "escape (c # d # r) @ 0x22 # rest = escape_unit c @ escape (d # r) @ 0x22 # rest"
      by (simp only: escape.simps if_not_P [OF False] append_assoc)
    have "parse_string_body (escape_unit c @ escape (d # r) @ 0x22 # rest) =
        cons_char c (parse_string_body (escape (d # r) @ 0x22 # rest))"
      by (rule parse_escape_unit)
    also have "\<dots> = Some (c # d # r, rest)"
      by (simp only: 3(2) [OF False]) (simp add: cons_char_def)
    finally show ?thesis by (simp only: e)
  qed
qed

lemma parse_string_print:
  "parse_string_body (tl (print_string s) @ rest) = Some (s, rest)"
  by (simp add: print_string_def parse_string_body_print)

subsection \<open>Values\<close>

lemma skip_ws_nonws: "s \<noteq> [] \<Longrightarrow> \<not> is_ws (hd s) \<Longrightarrow> skip_ws s = s"
  by (cases s) (simp_all add: skip_ws_def)

lemma hd_print_number:
  "print_number r \<noteq> [] \<and> (hd (print_number r) = 0x2D \<or> is_digit (hd (print_number r)))"
proof -
  define n where "n = nat \<lfloor>\<bar>r\<bar>\<rfloor>"
  have "\<exists>rest. print_number r = (if r < 0 then [0x2D] else []) @ print_nat n @ rest"
    unfolding print_number_def Let_def n_def by (rule exI) (rule refl)
  then obtain rest where "print_number r = (if r < 0 then [0x2D] else []) @ print_nat n @ rest" ..
  then show ?thesis
    using hd_print_nat_digit [of n] print_nat_nonempty [of n] by simp
qed

lemma starts_value_digit: "is_digit c \<Longrightarrow> starts_value c"
  by (auto simp add: starts_value_def is_digit_def is_ws_def)

lemma hd_stringify: "JSON_stringify v \<noteq> [] \<and> starts_value (hd (JSON_stringify v))"
proof (cases v)
  case (JNum r)
  with hd_print_number [of r] show ?thesis
    by (auto simp add: starts_value_digit) (simp add: starts_value_def is_ws_def)
qed (simp_all add: js_def starts_value_def is_ws_def print_string_def)

lemma parse_value_null: "parse_value (Suc n) (js ''null'' @ rest) = Some (JNull, rest)"
  by (simp add: js_def skip_ws_def is_ws_def is_digit_def)

lemma parse_value_true: "parse_value (Suc n) (js ''true'' @ rest) = Some (JBool True, rest)"
  by (simp add: js_def skip_ws_def is_ws_def is_digit_def)

lemma parse_value_false: "parse_value (Suc n) (js ''false'' @ rest) = Some (JBool False, rest)"
  by (simp add: js_def skip_ws_def is_ws_def is_digit_def)

lemma parse_value_string:
  "parse_value (Suc n) (print_string s @ rest) = Some (JStr s, rest)"
  by (simp add: print_string_def skip_ws_def is_ws_def parse_string_body_print)

lemma parse_value_number:
  assumes "decimal r" and "ok_rest rest"
  shows "parse_value (Suc n) (print_number r @ rest) = Some (JNum r, rest)"
proof -
  obtain c t where ct: "print_number r = c # t" and c: "c = 0x2D \<or> is_digit c"
    using hd_print_number [of r] by (cases "print_number r") auto
  from c have nws: "\<not> is_ws c" and nb: "c \<noteq> 0x5B" "c \<noteq> 0x7B" "c \<noteq> 0x22"
    by (auto simp add: is_ws_def is_digit_def)
  have "parse_number (c # t @ rest) = Some (r, rest)"
    using parse_number_print [OF assms] by (simp add: ct)
  with c nws nb show ?thesis
    by (simp add: ct skip_ws_def)
qed

lemma ok_rest_sep:
  "ok_rest (0x2C # r)" "ok_rest (0x5D # r)" "ok_rest (0x7D # r)"
  by (simp_all add: ok_rest_def is_digit_def)

lemma skip_ws_sep:
  "skip_ws (0x2C # r) = 0x2C # r" "skip_ws (0x5D # r) = 0x5D # r"
  "skip_ws (0x7D # r) = 0x7D # r" "skip_ws (0x3A # r) = 0x3A # r"
  "skip_ws (0x22 # r) = 0x22 # r"
  by (simp_all add: skip_ws_def is_ws_def)

lemma readsD:
  "reads v \<Longrightarrow> length (JSON_stringify v) \<le> n \<Longrightarrow> ok_rest rest \<Longrightarrow>
   parse_value n (JSON_stringify v @ rest) = Some (v, rest)"
  by (simp add: reads_def)

lemma stringify_length_pos: "0 < length (JSON_stringify v)"
  using hd_stringify [of v] by simp

lemma fuel_Suc: "length (JSON_stringify v) \<le> n \<Longrightarrow> \<exists>m. n = Suc m"
  using stringify_length_pos [of v] by (cases n) auto

lemma parse_elements_print:
  assumes "\<forall>v\<in>set vs. reads v" and "vs \<noteq> []"
    and "length (commas (map JSON_stringify vs)) < n"
  shows "parse_elements n (commas (map JSON_stringify vs) @ 0x5D # rest) = Some (vs, rest)"
  using assms
proof (induction vs arbitrary: n)
  case Nil
  then show ?case by simp
next
  case (Cons v vs)
  from Cons.prems(3) obtain m where n: "n = Suc m" by (cases n) auto
  have rv: "reads v" using Cons.prems(1) by simp
  show ?case
  proof (cases vs)
    case Nil
    have "length (JSON_stringify v) \<le> m" using Cons.prems(3) n Nil by simp
    then have "parse_value m (JSON_stringify v @ 0x5D # rest) = Some (v, 0x5D # rest)"
      using readsD [OF rv _ ok_rest_sep(2)] by blast
    then show ?thesis by (simp add: n Nil skip_ws_sep)
  next
    case (Cons w ws)
    let ?more = "commas (map JSON_stringify vs) @ 0x5D # rest"
    have len: "length (commas (map JSON_stringify (v # vs))) =
        length (JSON_stringify v) + 1 + length (commas (map JSON_stringify vs))"
      by (simp add: Cons)
    have "length (JSON_stringify v) \<le> m" using Cons.prems(3) n len by simp
    then have pv: "parse_value m (JSON_stringify v @ 0x2C # ?more) = Some (v, 0x2C # ?more)"
      using readsD [OF rv _ ok_rest_sep(1)] by blast
    have "length (commas (map JSON_stringify vs)) < m"
      using Cons.prems(3) n len stringify_length_pos [of v] by simp
    then have pe: "parse_elements m ?more = Some (vs, rest)"
      using Cons.IH Cons.prems(1) Cons by simp
    have tx: "commas (map JSON_stringify (v # vs)) @ 0x5D # rest =
        JSON_stringify v @ 0x2C # ?more"
      by (simp add: Cons)
    show ?thesis
      unfolding tx n by (simp add: pv pe skip_ws_sep)
  qed
qed

lemma parse_members_print:
  assumes "\<forall>kv\<in>set kvs. reads (snd kv)" and "kvs \<noteq> []"
    and "length (commas (map member_text kvs)) < n"
  shows "parse_members n (commas (map member_text kvs) @ 0x7D # rest) = Some (kvs, rest)"
  using assms
proof (induction kvs arbitrary: n)
  case Nil
  then show ?case by simp
next
  case (Cons kv kvs)
  obtain k v where kv: "kv = (k, v)" by (cases kv)
  from Cons.prems(3) obtain m where n: "n = Suc m" by (cases n) auto
  have rv: "reads v" using Cons.prems(1) kv by simp
  have key: "print_string k @ t = 0x22 # tl (print_string k) @ t" for t
    by (simp add: print_string_def)
  have lk: "length (member_text kv) = length (print_string k) + 1 + length (JSON_stringify v)"
    by (simp add: kv)
  show ?case
  proof (cases kvs)
    case Nil
    have "length (JSON_stringify v) \<le> m" using Cons.prems(3) n Nil lk by simp
    then have "parse_value m (JSON_stringify v @ 0x7D # rest) = Some (v, 0x7D # rest)"
      using readsD [OF rv _ ok_rest_sep(3)] by blast
    then show ?thesis
      by (simp add: n Nil kv key skip_ws_sep parse_string_print del: parse_string_body.simps)
  next
    case (Cons w ws)
    let ?more = "commas (map member_text kvs) @ 0x7D # rest"
    have len: "length (commas (map member_text (kv # kvs))) =
        length (member_text kv) + 1 + length (commas (map member_text kvs))"
      by (simp add: Cons)
    have "length (JSON_stringify v) \<le> m" using Cons.prems(3) n len lk by simp
    then have pv: "parse_value m (JSON_stringify v @ 0x2C # ?more) = Some (v, 0x2C # ?more)"
      using readsD [OF rv _ ok_rest_sep(1)] by blast
    have "length (commas (map member_text kvs)) < m"
      using Cons.prems(3) n len lk by simp
    then have pe: "parse_members m ?more = Some (kvs, rest)"
      using Cons.IH Cons.prems(1) Cons by simp
    have tx: "commas (map member_text (kv # kvs)) @ 0x7D # rest =
        0x22 # tl (print_string k) @ (0x3A # JSON_stringify v @ 0x2C # ?more)"
      by (simp add: Cons kv print_string_def)
    show ?thesis
      unfolding tx n
      by (simp add: kv pv pe skip_ws_sep parse_string_print del: parse_string_body.simps)
  qed
qed

lemma hd_commas_values:
  assumes "vs \<noteq> []"
  shows "commas (map JSON_stringify vs) \<noteq> [] \<and> starts_value (hd (commas (map JSON_stringify vs)))"
proof -
  obtain v ws where vs: "vs = v # ws" using assms by (cases vs) auto
  show ?thesis using hd_stringify [of v] by (cases ws) (simp_all add: vs)
qed

lemma hd_commas_members:
  assumes "kvs \<noteq> []"
  shows "commas (map member_text kvs) \<noteq> [] \<and> hd (commas (map member_text kvs)) = 0x22"
proof -
  obtain kv ws where kvs: "kvs = kv # ws" using assms by (cases kvs) auto
  show ?thesis by (cases ws; cases kv) (simp_all add: kvs print_string_def)
qed

lemma reads_array:
  assumes "\<forall>v\<in>set vs. reads v"
  shows "reads (JArr vs)"
  unfolding reads_def
proof (intro allI impI)
  fix n rest
  assume len: "length (JSON_stringify (JArr vs)) \<le> n"
  then obtain m where n: "n = Suc m" by (cases n) auto
  show "parse_value n (JSON_stringify (JArr vs) @ rest) = Some (JArr vs, rest)"
  proof (cases "vs = []")
    case True
    then show ?thesis by (simp add: n skip_ws_def is_ws_def)
  next
    case False
    let ?body = "commas (map JSON_stringify vs)"
    from hd_commas_values [OF False] obtain c t where b: "?body = c # t" and c: "starts_value c"
      by (cases ?body) auto
    have sk: "skip_ws (?body @ 0x5D # rest) = c # t @ 0x5D # rest"
      using c by (simp add: b skip_ws_def starts_value_def)
    have "length ?body < m" using len n by simp
    then have "parse_elements m (?body @ 0x5D # rest) = Some (vs, rest)"
      using parse_elements_print [OF assms False] by blast
    then show ?thesis
      using c by (simp add: n skip_ws_def is_ws_def sk [unfolded skip_ws_def] starts_value_def)
  qed
qed

lemma reads_object:
  assumes "\<forall>kv\<in>set kvs. reads (snd kv)"
  shows "reads (JObj kvs)"
  unfolding reads_def
proof (intro allI impI)
  fix n rest
  assume len: "length (JSON_stringify (JObj kvs)) \<le> n"
  then obtain m where n: "n = Suc m" by (cases n) auto
  show "parse_value n (JSON_stringify (JObj kvs) @ rest) = Some (JObj kvs, rest)"
  proof (cases "kvs = []")
    case True
    then show ?thesis by (simp add: n skip_ws_def is_ws_def)
  next
    case False
    let ?body = "commas (map member_text kvs)"
    from hd_commas_members [OF False] obtain t where b: "?body = 0x22 # t"
      by (cases ?body) auto
    have sk: "skip_ws (?body @ 0x7D # rest) = 0x22 # t @ 0x7D # rest"
      by (simp add: b skip_ws_def is_ws_def)
    have "length ?body < m" using len n by simp
    then have "parse_members m (?body @ 0x7D # rest) = Some (kvs, rest)"
      using parse_members_print [OF assms False] by blast
    then show ?thesis
      by (simp add: n skip_ws_def is_ws_def sk [unfolded skip_ws_def])
  qed
qed

lemma wf_json_reads: "wf_json v \<Longrightarrow> reads v"
proof (induction v)
  case JNull
  show ?case unfolding reads_def
  proof (intro allI impI)
    fix n :: nat and rest
    assume "length (JSON_stringify JNull) \<le> n"
    then obtain m where "n = Suc m" using fuel_Suc by blast
    then show "parse_value n (JSON_stringify JNull @ rest) = Some (JNull, rest)"
      using parse_value_null [of m rest] by simp
  qed
next
  case (JBool b)
  show ?case unfolding reads_def
  proof (intro allI impI)
    fix n :: nat and rest
    assume "length (JSON_stringify (JBool b)) \<le> n"
    then obtain m where "n = Suc m" using fuel_Suc by blast
    then show "parse_value n (JSON_stringify (JBool b) @ rest) = Some (JBool b, rest)"
      using parse_value_true [of m rest] parse_value_false [of m rest] by (cases b) simp_all
  qed
next
  case (JNum r)
  show ?case unfolding reads_def
  proof (intro allI impI)
    fix n :: nat and rest
    assume "length (JSON_stringify (JNum r)) \<le> n" and ok: "ok_rest rest"
    then obtain m where "n = Suc m" using stringify_length_pos [of "JNum r"] by (cases n) auto
    then show "parse_value n (JSON_stringify (JNum r) @ rest) = Some (JNum r, rest)"
      using parse_value_number [of r rest m] JNum ok by simp
  qed
next
  case (JStr s)
  show ?case unfolding reads_def
  proof (intro allI impI)
    fix n :: nat and rest
    assume "length (JSON_stringify (JStr s)) \<le> n"
    then obtain m where "n = Suc m" using fuel_Suc by blast
    then show "parse_value n (JSON_stringify (JStr s) @ rest) = Some (JStr s, rest)"
      using parse_value_string [of m s rest] by simp
  qed
next
  case (JArr vs)
  then have "\<forall>v\<in>set vs. reads v" by (simp add: list_all_iff)
  then show ?case by (rule reads_array)
next
  case (JObj kvs)
  have "\<forall>kv\<in>set kvs. reads (snd kv)"
  proof
    fix kv assume kv: "kv \<in> set kvs"
    obtain k v where e: "kv = (k, v)" by (cases kv)
    from JObj.prems kv have "wf_json v" by (auto simp add: list_all_iff e)
    with JObj.IH [OF kv, of v] show "reads (snd kv)" by (simp add: e)
  qed
  then show ?case by (rule reads_object)
qed

lemma JSON_parse_stringify: "wf_json v \<Longrightarrow> JSON_parse (JSON_stringify v) = Some v"
proof -
  assume "wf_json v"
  then have "reads v" by (rule wf_json_reads)
  then have "parse_value (Suc (length (JSON_stringify v))) (JSON_stringify v @ []) = Some (v, [])"
    by (rule readsD) (simp_all add: ok_rest_def)
  then show ?thesis by (simp add: JSON_parse_def skip_ws_def)
qed

subsection \<open>The fuel of the reader is enough\<close>

lemma skip_ws_length: "length (skip_ws s) \<le> length s"
  by (simp add: skip_ws_def length_dropWhile_le)

lemma cons_char_Some:
  "cons_char c res = Some (t, r) \<Longrightarrow> \<exists>t'. res = Some (t', r) \<and> t = c # t'"
  by (cases res) (auto simp add: cons_char_def)

lemma parse_string_body_length:
  "parse_string_body s = Some (t, r) \<Longrightarrow> length r < length s"
proof (induction s arbitrary: t rule: parse_string_body.induct)
  case 1
  then show ?case by simp
next
  case (2 c r0)
  show ?case
  proof (cases "c = 0x22")
    case True
    with 2(4) show ?thesis by simp
  next
    case nq: False
    show ?thesis
    proof (cases "c = 0x5C")
      case True
      then obtain e r1 where r0: "r0 = e # r1"
        using 2(4) nq by (cases r0) auto
      show ?thesis
      proof (cases "e = 0x75")
        case u: True
        then obtain ch where ch: "unicode_escape (take 4 r1) = Some ch"
          and c: "cons_char ch (parse_string_body (drop 4 r1)) = Some (t, r)"
          using 2(4) nq True r0 by (auto split: option.splits)
        from cons_char_Some [OF c] obtain t' where "parse_string_body (drop 4 r1) = Some (t', r)"
          by blast
        from 2(1) [OF nq True r0 u ch this] show ?thesis
          by (simp add: r0)
      next
        case nu: False
        then obtain ch where ch: "unescape e = Some ch"
          and c: "cons_char ch (parse_string_body r1) = Some (t, r)"
          using 2(4) nq True r0 by (auto split: option.splits)
        from cons_char_Some [OF c] obtain t' where "parse_string_body r1 = Some (t', r)"
          by blast
        from 2(2) [OF nq True r0 nu ch this] show ?thesis
          by (simp add: r0)
      qed
    next
      case False
      then have c: "cons_char c (parse_string_body r0) = Some (t, r)" and lo: "\<not> unat c < 0x20"
        using 2(4) nq by (auto split: if_splits)
      from cons_char_Some [OF c] obtain t' where "parse_string_body r0 = Some (t', r)"
        by blast
      from 2(3) [OF nq False lo this] show ?thesis by simp
    qed
  qed
qed

lemma parse_fraction_length: "parse_fraction s = Some (f, r) \<Longrightarrow> length r \<le> length s"
  by (cases s) (auto simp add: parse_fraction_def length_dropWhile_le le_SucI split: if_splits)

lemma parse_sign_length: "parse_sign s = (sg, r) \<Longrightarrow> length r \<le> length s"
  by (cases s) (auto simp add: parse_sign_def split: if_splits)

lemma parse_exponent_length: "parse_exponent s = Some (e, r) \<Longrightarrow> length r \<le> length s"
proof (cases s)
  case Nil
  then show "parse_exponent s = Some (e, r) \<Longrightarrow> length r \<le> length s"
    by (simp add: parse_exponent_def)
next
  case (Cons c r0)
  obtain sg r1 where ps: "parse_sign r0 = (sg, r1)" by (cases "parse_sign r0")
  have "length (dropWhile is_digit r1) \<le> length r0"
    using parse_sign_length [OF ps] length_dropWhile_le [of is_digit r1] by simp
  then show "parse_exponent s = Some (e, r) \<Longrightarrow> length r \<le> length s"
    by (auto simp add: parse_exponent_def Cons ps split: if_splits)
qed

lemma parse_magnitude_length:
  assumes "parse_magnitude sg s = Some (x, r)"
  shows "length r < length s"
proof -
  from assms have ne: "takeWhile is_digit s \<noteq> []"
    by (auto simp add: parse_magnitude_def Let_def split: if_splits)
  have "length (takeWhile is_digit s) + length (dropWhile is_digit s) = length s"
    by (metis length_append takeWhile_dropWhile_id)
  with ne have d: "length (dropWhile is_digit s) < length s"
    by (cases "takeWhile is_digit s") auto
  from assms obtain f s3 e where "parse_fraction (dropWhile is_digit s) = Some (f, s3)"
    and "parse_exponent s3 = Some (e, r)"
    by (auto simp add: parse_magnitude_def Let_def split: if_splits option.splits)
  then have "length r \<le> length (dropWhile is_digit s)"
    using parse_fraction_length parse_exponent_length by (meson le_trans)
  with d show ?thesis by simp
qed

lemma parse_number_length: "parse_number s = Some (x, r) \<Longrightarrow> length r < length s"
  by (cases s) (auto simp add: parse_number_def dest!: parse_magnitude_length split: if_splits)

lemma fuel_okD:
  assumes "fuel_ok p n" and "p n s = Some (x, r)"
  shows "length r < length s" and "length s - length r \<le> m \<Longrightarrow> p m s = Some (x, r)"
  using assms unfolding fuel_ok_def by blast+

lemma skip_ws_Cons_length: "skip_ws s = c # r0 \<Longrightarrow> length r0 < length s"
  using skip_ws_length [of s] by simp

lemma parse_value_unfold:
  "skip_ws s = c # r \<Longrightarrow> parse_value (Suc n) s =
     (if c = 0x5B then
        (if skip_ws r \<noteq> [] \<and> hd (skip_ws r) = 0x5D
         then Some (JArr [], tl (skip_ws r))
         else map_option (\<lambda>(vs, r'). (JArr vs, r')) (parse_elements n r))
      else if c = 0x7B then
        (if skip_ws r \<noteq> [] \<and> hd (skip_ws r) = 0x7D
         then Some (JObj [], tl (skip_ws r))
         else map_option (\<lambda>(kvs, r'). (JObj kvs, r')) (parse_members n r))
      else if c = 0x22 then
        map_option (\<lambda>(t, r'). (JStr t, r')) (parse_string_body r)
      else if c = 0x2D \<or> is_digit c then
        map_option (\<lambda>(x, r'). (JNum x, r')) (parse_number (c # r))
      else if take 4 (c # r) = js ''null'' then Some (JNull, drop 4 (c # r))
      else if take 4 (c # r) = js ''true'' then Some (JBool True, drop 4 (c # r))
      else if take 5 (c # r) = js ''false'' then Some (JBool False, drop 5 (c # r))
      else None)"
  by (simp only: parse_value.simps list.case)

lemma fuel_free:
  assumes "parse_value (Suc n) s = Some (v, r)" and "length r < length s"
    and "\<And>k. parse_value (Suc k) s = parse_value (Suc n) s"
  shows "length r < length s \<and> (\<forall>m. length s - length r \<le> m \<longrightarrow> parse_value m s = Some (v, r))"
proof (intro conjI allI impI)
  show "length r < length s" by fact
  fix m assume "length s - length r \<le> m"
  with assms(2) obtain k where k: "m = Suc k" by (cases m) auto
  have "parse_value (Suc k) s = Some (v, r)"
    using assms(3) [of k] assms(1) by (simp only:)
  then show "parse_value m s = Some (v, r)" by (simp only: k)
qed

lemma map_option_pair_Some:
  "map_option (\<lambda>(a, r'). (f a, r')) res = Some (v, r) \<Longrightarrow> \<exists>a. res = Some (a, r) \<and> v = f a"
  by (cases res) auto

lemma literal_length:
  assumes "(if take 4 s = js ''null'' then Some (JNull, drop 4 s)
            else if take 4 s = js ''true'' then Some (JBool True, drop 4 s)
            else if take 5 s = js ''false'' then Some (JBool False, drop 5 s)
            else None) = Some (v, r)"
  shows "length r < length s"
proof -
  have 4: "length (drop 4 s) < length s" if "take 4 s = t" "length t = 4" for t
  proof -
    from that have "length (take 4 s) = 4" by simp
    then have "4 \<le> length s" by simp
    then show ?thesis by simp
  qed
  have 5: "length (drop 5 s) < length s" if "take 5 s = t" "length t = 5" for t
  proof -
    from that have "length (take 5 s) = 5" by simp
    then have "5 \<le> length s" by simp
    then show ?thesis by simp
  qed
  show ?thesis
  proof (cases "take 4 s = js ''null''")
    case True
    from assms have "Some (JNull, drop 4 s) = Some (v, r)" by (simp only: if_P [OF True])
    then have "r = drop 4 s" by simp
    with 4 [OF True] show ?thesis by (simp add: js_def)
  next
    case n: False
    show ?thesis
    proof (cases "take 4 s = js ''true''")
      case True
      from assms have "Some (JBool True, drop 4 s) = Some (v, r)"
        by (simp only: if_not_P [OF n] if_P [OF True])
      then have "r = drop 4 s" by simp
      with 4 [OF True] show ?thesis by (simp add: js_def)
    next
      case t: False
      show ?thesis
      proof (cases "take 5 s = js ''false''")
        case True
        from assms have "Some (JBool False, drop 5 s) = Some (v, r)"
          by (simp only: if_not_P [OF n] if_not_P [OF t] if_P [OF True])
        then have "r = drop 5 s" by simp
        with 5 [OF True] show ?thesis by (simp add: js_def)
      next
        case False
        from assms have "None = Some (v, r)"
          by (simp only: if_not_P [OF n] if_not_P [OF t] if_not_P [OF False])
        then show ?thesis by simp
      qed
    qed
  qed
qed

lemma parse_value_fuel:
  assumes e: "fuel_ok parse_elements n" and m: "fuel_ok parse_members n"
  shows "fuel_ok parse_value (Suc n)"
  unfolding fuel_ok_def
proof (intro allI impI)
  fix s v r
  assume p: "parse_value (Suc n) s = Some (v, r)"
  then obtain c r0 where sk: "skip_ws s = c # r0"
    by (cases "skip_ws s") auto
  note l0 = skip_ws_Cons_length [OF sk]
  note body = parse_value_unfold [OF sk]
  have fuel: "\<exists>k. m' = Suc k \<and> length r0 - length r \<le> k"
    if "length s - length r \<le> m'" "length r < length s" for m'
    using that l0 by (cases m') auto
  consider (arr0) "c = 0x5B" "skip_ws r0 \<noteq> [] \<and> hd (skip_ws r0) = 0x5D"
    | (arr) "c = 0x5B" "\<not> (skip_ws r0 \<noteq> [] \<and> hd (skip_ws r0) = 0x5D)"
    | (obj0) "c \<noteq> 0x5B" "c = 0x7B" "skip_ws r0 \<noteq> [] \<and> hd (skip_ws r0) = 0x7D"
    | (obj) "c \<noteq> 0x5B" "c = 0x7B" "\<not> (skip_ws r0 \<noteq> [] \<and> hd (skip_ws r0) = 0x7D)"
    | (str) "c \<noteq> 0x5B" "c \<noteq> 0x7B" "c = 0x22"
    | (num) "c \<noteq> 0x5B" "c \<noteq> 0x7B" "c \<noteq> 0x22" "c = 0x2D \<or> is_digit c"
    | (lit) "c \<noteq> 0x5B" "c \<noteq> 0x7B" "c \<noteq> 0x22" "\<not> (c = 0x2D \<or> is_digit c)"
    by blast
  then show "length r < length s \<and> (\<forall>m. length s - length r \<le> m \<longrightarrow> parse_value m s = Some (v, r))"
  proof cases
    case arr0
    have b: "parse_value (Suc k) s = Some (JArr [], tl (skip_ws r0))" for k
      unfolding body by (simp only: if_P [OF arr0(1)] if_P [OF arr0(2)])
    from p have r: "r = tl (skip_ws r0)" unfolding b by simp
    have "length r \<le> length r0"
      using skip_ws_length [of r0] by (simp add: r)
    with l0 have lr: "length r < length s" by simp
    show ?thesis
      by (rule fuel_free [OF p lr]) (simp only: b)
  next
    case arr
    have b: "parse_value (Suc k) s = map_option (\<lambda>(vs, r'). (JArr vs, r')) (parse_elements k r0)" for k
      unfolding body by (simp only: if_P [OF arr(1)] if_not_P [OF arr(2)])
    from p obtain vs where pe: "parse_elements n r0 = Some (vs, r)" and v: "v = JArr vs"
      unfolding b using map_option_pair_Some by fastforce
    have lr: "length r < length s"
      using fuel_okD(1) [OF e pe] l0 by simp
    have "parse_value m' s = Some (v, r)" if "length s - length r \<le> m'" for m'
    proof -
      from fuel [OF that lr] obtain k where k: "m' = Suc k" "length r0 - length r \<le> k" by blast
      have "parse_elements k r0 = Some (vs, r)"
        by (rule fuel_okD(2) [OF e pe k(2)])
      then show ?thesis unfolding k(1) b by (simp add: v)
    qed
    with lr show ?thesis by blast
  next
    case obj0
    have b: "parse_value (Suc k) s = Some (JObj [], tl (skip_ws r0))" for k
      unfolding body by (simp only: if_not_P [OF obj0(1)] if_P [OF obj0(2)] if_P [OF obj0(3)])
    from p have r: "r = tl (skip_ws r0)" unfolding b by simp
    have "length r \<le> length r0"
      using skip_ws_length [of r0] by (simp add: r)
    with l0 have lr: "length r < length s" by simp
    show ?thesis
      by (rule fuel_free [OF p lr]) (simp only: b)
  next
    case obj
    have b: "parse_value (Suc k) s = map_option (\<lambda>(kvs, r'). (JObj kvs, r')) (parse_members k r0)" for k
      unfolding body by (simp only: if_not_P [OF obj(1)] if_P [OF obj(2)] if_not_P [OF obj(3)])
    from p obtain kvs where pe: "parse_members n r0 = Some (kvs, r)" and v: "v = JObj kvs"
      unfolding b using map_option_pair_Some by fastforce
    have lr: "length r < length s"
      using fuel_okD(1) [OF m pe] l0 by simp
    have "parse_value m' s = Some (v, r)" if "length s - length r \<le> m'" for m'
    proof -
      from fuel [OF that lr] obtain k where k: "m' = Suc k" "length r0 - length r \<le> k" by blast
      have "parse_members k r0 = Some (kvs, r)"
        by (rule fuel_okD(2) [OF m pe k(2)])
      then show ?thesis unfolding k(1) b by (simp add: v)
    qed
    with lr show ?thesis by blast
  next
    case str
    have b: "parse_value (Suc k) s = map_option (\<lambda>(t, r'). (JStr t, r')) (parse_string_body r0)" for k
      unfolding body by (simp only: if_not_P [OF str(1)] if_not_P [OF str(2)] if_P [OF str(3)])
    from p obtain t where "parse_string_body r0 = Some (t, r)"
      unfolding b using map_option_pair_Some by fastforce
    then have "length r < length r0" by (rule parse_string_body_length)
    with l0 have lr: "length r < length s" by simp
    show ?thesis
      by (rule fuel_free [OF p lr]) (simp only: b)
  next
    case num
    have b: "parse_value (Suc k) s = map_option (\<lambda>(x, r'). (JNum x, r')) (parse_number (c # r0))" for k
      unfolding body
      by (simp only: if_not_P [OF num(1)] if_not_P [OF num(2)] if_not_P [OF num(3)] if_P [OF num(4)])
    from p obtain x where "parse_number (c # r0) = Some (x, r)"
      unfolding b using map_option_pair_Some by fastforce
    then have "length r < length (c # r0)" by (rule parse_number_length)
    with l0 have lr: "length r < length s" by simp
    show ?thesis
      by (rule fuel_free [OF p lr]) (simp only: b)
  next
    case lit
    have b: "parse_value (Suc k) s =
        (if take 4 (c # r0) = js ''null'' then Some (JNull, drop 4 (c # r0))
         else if take 4 (c # r0) = js ''true'' then Some (JBool True, drop 4 (c # r0))
         else if take 5 (c # r0) = js ''false'' then Some (JBool False, drop 5 (c # r0))
         else None)" for k
      unfolding body
      by (simp only: if_not_P [OF lit(1)] if_not_P [OF lit(2)] if_not_P [OF lit(3)] if_not_P [OF lit(4)])
    from p have "length r < length (c # r0)"
      unfolding b by (rule literal_length)
    with l0 have lr: "length r < length s" by simp
    show ?thesis
      by (rule fuel_free [OF p lr]) (simp only: b)
  qed
qed

lemma parse_elements_unfold:
  "parse_value n s = Some (v, r1) \<Longrightarrow> skip_ws r1 = c # r2 \<Longrightarrow>
   parse_elements (Suc n) s =
     (if c = 0x2C then map_option (\<lambda>(vs, r''). (v # vs, r'')) (parse_elements n r2)
      else if c = 0x5D then Some ([v], r2) else None)"
  by simp

lemma parse_elements_fuel:
  assumes v: "fuel_ok parse_value n" and e: "fuel_ok parse_elements n"
  shows "fuel_ok parse_elements (Suc n)"
  unfolding fuel_ok_def
proof (intro allI impI)
  fix s vs r
  assume p: "parse_elements (Suc n) s = Some (vs, r)"
  then obtain x r1 where pv: "parse_value n s = Some (x, r1)"
    by (cases "parse_value n s") auto
  with p obtain c r2 where sk: "skip_ws r1 = c # r2"
    by (cases "skip_ws r1") auto
  note l1 = fuel_okD(1) [OF v pv]
  note l2 = skip_ws_Cons_length [OF sk]
  have pvk: "parse_value k s = Some (x, r1)" if "length s - length r1 \<le> k" for k
    by (rule fuel_okD(2) [OF v pv that])
  show "length r < length s \<and> (\<forall>m. length s - length r \<le> m \<longrightarrow> parse_elements m s = Some (vs, r))"
  proof (cases "c = 0x2C")
    case True
    from p obtain ws where pe: "parse_elements n r2 = Some (ws, r)" and vs: "vs = x # ws"
      unfolding parse_elements_unfold [OF pv sk] if_P [OF True]
      using map_option_pair_Some by fastforce
    note l3 = fuel_okD(1) [OF e pe]
    have lr: "length r < length s" using l1 l2 l3 by simp
    have "parse_elements m s = Some (vs, r)" if "length s - length r \<le> m" for m
    proof -
      from that lr l1 l2 l3 obtain k where k: "m = Suc k" "length s - length r1 \<le> k"
        "length r2 - length r \<le> k" by (cases m) auto
      have "parse_elements k r2 = Some (ws, r)"
        by (rule fuel_okD(2) [OF e pe k(3)])
      then show ?thesis
        unfolding k(1) parse_elements_unfold [OF pvk [OF k(2)] sk] if_P [OF True] by (simp add: vs)
    qed
    with lr show ?thesis by blast
  next
    case False
    with p have c: "c = 0x5D" and r: "r = r2" and vs: "vs = [x]"
      unfolding parse_elements_unfold [OF pv sk] by (auto split: if_splits)
    have lr: "length r < length s" using l1 l2 r by simp
    have "parse_elements m s = Some (vs, r)" if "length s - length r \<le> m" for m
    proof -
      from that lr l1 l2 r obtain k where k: "m = Suc k" "length s - length r1 \<le> k"
        by (cases m) auto
      show ?thesis
        unfolding k(1) parse_elements_unfold [OF pvk [OF k(2)] sk] using False c r vs by simp
    qed
    with lr show ?thesis by blast
  qed
qed

lemma parse_members_unfold:
  "skip_ws s = 0x22 # r0 \<Longrightarrow> parse_string_body r0 = Some (k, r1) \<Longrightarrow>
   skip_ws r1 = 0x3A # r2 \<Longrightarrow> parse_value n r2 = Some (v, r3) \<Longrightarrow>
   skip_ws r3 = c3 # r4 \<Longrightarrow>
   parse_members (Suc n) s =
     (if c3 = 0x2C then map_option (\<lambda>(kvs, r5). ((k, v) # kvs, r5)) (parse_members n r4)
      else if c3 = 0x7D then Some ([(k, v)], r4) else None)"
  by (simp del: parse_string_body.simps)

lemma parse_members_inv:
  assumes "parse_members (Suc n) s = Some (kvs, r)"
  obtains r0 k r1 r2 v r3 c3 r4 where
    "skip_ws s = 0x22 # r0" "parse_string_body r0 = Some (k, r1)"
    "skip_ws r1 = 0x3A # r2" "parse_value n r2 = Some (v, r3)" "skip_ws r3 = c3 # r4"
proof -
  from assms obtain q r0 where 1: "skip_ws s = q # r0"
    by (cases "skip_ws s") auto
  with assms have q: "q = 0x22"
    by (auto split: if_splits)
  from assms 1 q obtain k r1 where 2: "parse_string_body r0 = Some (k, r1)"
    by (cases "parse_string_body r0") (auto simp del: parse_string_body.simps)
  from assms 1 q 2 obtain c1 r2 where 3: "skip_ws r1 = c1 # r2"
    by (cases "skip_ws r1") (auto simp del: parse_string_body.simps)
  with assms 1 q 2 have c1: "c1 = 0x3A"
    by (auto split: if_splits simp del: parse_string_body.simps)
  from assms 1 q 2 3 c1 obtain v r3 where 4: "parse_value n r2 = Some (v, r3)"
    by (cases "parse_value n r2") (auto simp del: parse_string_body.simps)
  from assms 1 q 2 3 c1 4 obtain c3 r4 where 5: "skip_ws r3 = c3 # r4"
    by (cases "skip_ws r3") (auto simp del: parse_string_body.simps)
  from 1 q 2 3 c1 4 5 show thesis using that by blast
qed

lemma parse_members_fuel:
  assumes v: "fuel_ok parse_value n" and m: "fuel_ok parse_members n"
  shows "fuel_ok parse_members (Suc n)"
  unfolding fuel_ok_def
proof (intro allI impI)
  fix s kvs r
  assume p: "parse_members (Suc n) s = Some (kvs, r)"
  from parse_members_inv [OF p] obtain r0 k r1 r2 x r3 c3 r4 where
    1: "skip_ws s = 0x22 # r0" and 2: "parse_string_body r0 = Some (k, r1)" and
    3: "skip_ws r1 = 0x3A # r2" and 4: "parse_value n r2 = Some (x, r3)" and
    5: "skip_ws r3 = c3 # r4" by blast
  note l = skip_ws_Cons_length [OF 1] parse_string_body_length [OF 2] skip_ws_Cons_length [OF 3]
    fuel_okD(1) [OF v 4] skip_ws_Cons_length [OF 5]
  have pvk: "parse_value j r2 = Some (x, r3)" if "length r2 - length r3 \<le> j" for j
    by (rule fuel_okD(2) [OF v 4 that])
  note body = parse_members_unfold [OF 1 2 3 _ 5]
  show "length r < length s \<and> (\<forall>m. length s - length r \<le> m \<longrightarrow> parse_members m s = Some (kvs, r))"
  proof (cases "c3 = 0x2C")
    case True
    from p obtain ws where pe: "parse_members n r4 = Some (ws, r)" and kvs: "kvs = (k, x) # ws"
      unfolding body [OF 4] if_P [OF True]
      using map_option_pair_Some [where f = "\<lambda>ws. (k, x) # ws"] by fastforce
    note l6 = fuel_okD(1) [OF m pe]
    have lr: "length r < length s" using l l6 by simp
    have "parse_members j s = Some (kvs, r)" if "length s - length r \<le> j" for j
    proof -
      from that lr l l6 obtain i where i: "j = Suc i" "length r2 - length r3 \<le> i"
        "length r4 - length r \<le> i" by (cases j) auto
      have "parse_members i r4 = Some (ws, r)"
        by (rule fuel_okD(2) [OF m pe i(3)])
      then show ?thesis
        unfolding i(1) body [OF pvk [OF i(2)]] if_P [OF True] by (simp add: kvs)
    qed
    with lr show ?thesis by blast
  next
    case False
    with p have c: "c3 = 0x7D" and r: "r = r4" and kvs: "kvs = [(k, x)]"
      unfolding body [OF 4] by (auto split: if_splits)
    have lr: "length r < length s" using l r by simp
    have "parse_members j s = Some (kvs, r)" if "length s - length r \<le> j" for j
    proof -
      from that lr l r obtain i where i: "j = Suc i" "length r2 - length r3 \<le> i"
        by (cases j) auto
      show ?thesis
        unfolding i(1) body [OF pvk [OF i(2)]] using False c r kvs by simp
    qed
    with lr show ?thesis by blast
  qed
qed

lemma fuel_ok_all: "fuel_ok parse_value n \<and> fuel_ok parse_elements n \<and> fuel_ok parse_members n"
proof (induction n)
  case 0
  show ?case by (simp add: fuel_ok_def)
next
  case (Suc n)
  then show ?case
    by (simp add: parse_value_fuel parse_elements_fuel parse_members_fuel)
qed

lemma JSON_parse_any_fuel:
  assumes "parse_value n s = Some (v, r)" and "skip_ws r = []"
  shows "JSON_parse s = Some v"
proof -
  have "fuel_ok parse_value n" by (simp add: fuel_ok_all)
  from fuel_okD(2) [OF this assms(1), of "Suc (length s)"]
  have "parse_value (Suc (length s)) s = Some (v, r)" by simp
  with assms(2) show ?thesis by (simp add: JSON_parse_def)
qed

subsection \<open>Reading the cart back\<close>

lemma decimal_of_int: "decimal (of_int n)"
proof -
  have "(0::nat) \<in> set [0..<Suc (nat (snd (quotient_of (of_int n))))]" by simp
  moreover have "of_int \<lfloor>(of_int n :: rat) * 10 ^ (0::nat)\<rfloor> = (of_int n :: rat) * 10 ^ (0::nat)" by simp
  ultimately show ?thesis unfolding decimal_def by blast
qed

lemma wf_json_item: "wf_product (product item) \<Longrightarrow> wf_json (item_to_json item)"
  by (simp add: item_to_json_def product_to_json_def wf_product_def decimal_of_int list_all_iff)

lemma wf_json_cart:
  "list_all (\<lambda>item. wf_product (product item)) c \<Longrightarrow> wf_json (cart_to_json c)"
  by (simp add: cart_to_json_def list_all_iff wf_json_item)

lemma those_map_Some: "those (map Some xs) = Some xs"
  by (induction xs) simp_all

lemma json_strings_JStr: "json_strings (Some (JArr (map JStr xs))) = Some xs"
proof -
  have "map (\<lambda>x. json_string (Some x)) (map JStr xs) = map Some xs"
    by (simp add: json_string_def)
  then show ?thesis
    by (simp only: json_strings_def those_map_Some option.case json.case)
qed

lemma read_product_to_json: "read_product (Some (product_to_json p)) = Some p"
proof -
  have "read_product (Some (product_to_json p)) =
      (case json_strings (Some (JArr (map JStr (images p)))) of
         None \<Rightarrow> None
       | Some g \<Rightarrow> Some \<lparr>product_id = product_id p, name = name p, description = description p,
           price = price p, category = category p, inventory = inventory p, images = g\<rparr>)"
    by (simp add: read_product_def product_to_json_def field_def js_def json_string_def
        json_number_def json_int_def del: map_map)
  then show ?thesis
    by (simp only: json_strings_JStr option.case) simp
qed

lemma read_item_to_json: "read_item (item_to_json item) = Some item"
proof -
  have "field ''product'' [(js ''product'', product_to_json (product item)),
      (js ''quantity'', JNum (of_int (quantity item)))] = Some (product_to_json (product item))"
    and "field ''quantity'' [(js ''product'', product_to_json (product item)),
      (js ''quantity'', JNum (of_int (quantity item)))] = Some (JNum (of_int (quantity item)))"
    by (simp_all add: field_def js_def)
  then show ?thesis
    by (simp add: read_item_def item_to_json_def read_product_to_json json_int_def)
qed

lemma item_of_to_json: "item_of_json (item_to_json item) = Some item"
  by (simp add: item_of_json_def read_item_to_json)


lemma those_items: "those (map item_of_json (map item_to_json c)) = Some c"
proof -
  have "map item_of_json (map item_to_json c) = map Some c"
    by (simp add: item_of_to_json)
  then show ?thesis by (simp only: those_map_Some)
qed

lemma quantity_of_item: "\<not> quantity_throws (item_to_json item)"
proof -
  have "field ''quantity'' [(js ''product'', product_to_json (product item)),
      (js ''quantity'', JNum (of_int (quantity item)))] = Some (JNum (of_int (quantity item)))"
    by (simp add: field_def js_def)
  then show ?thesis
    by (simp add: quantity_throws_def item_to_json_def)
qed

lemma no_throw_items: "\<not> list_ex quantity_throws (map item_to_json c)"
  by (simp add: list_ex_iff quantity_of_item)

lemma stringify_cart_nonempty: "JSON_stringify (cart_to_json c) \<noteq> []"
  by (simp add: cart_to_json_def)

lemma hydrate_stored:
  assumes st: "st ''cart'' = Some (JSON_stringify (cart_to_json c))"
    and wf: "list_all (\<lambda>item. wf_product (product item)) c"
  shows "hydrate (initial_state st) =
         Done ((initial_state st)\<lparr>cart := c, cartCount := reduce_quantity c\<rparr>)"
proof -
  have p: "JSON_parse (JSON_stringify (cart_to_json c)) = Some (JArr (map item_to_json c))"
    using JSON_parse_stringify [OF wf_json_cart [OF wf]] by (simp add: cart_to_json_def)
  have l: "localStorage (initial_state st) ''cart'' = Some (JSON_stringify (cart_to_json c))"
    by (simp add: initial_state_def st)
  show ?thesis
    unfolding hydrate_def l
    by (simp only: option.case if_not_P [OF stringify_cart_nonempty] p json.case
        if_not_P [OF no_throw_items] those_items)
qed

lemma hydrate_persisted:
  assumes "persisted s"
  shows "hydrate (initial_state (localStorage s)) =
         Done ((initial_state (localStorage s))\<lparr>cart := cart s, cartCount := reduce_quantity (cart s)\<rparr>)"
proof (cases "localStorage s ''cart''")
  case None
  with assms have "cart s = []" by (simp add: persisted_def)
  with None show ?thesis
    by (simp add: hydrate_def initial_state_def reduce_quantity_def)
next
  case (Some t)
  with assms have t: "localStorage s ''cart'' = Some (JSON_stringify (cart_to_json (cart s)))"
    and wf: "list_all (\<lambda>item. wf_product (product item)) (cart s)"
    by (simp_all add: persisted_def)
  show ?thesis by (rule hydrate_stored [of "localStorage s" "cart s", OF t wf])
qed


subsection \<open>Operations and invariants of the cart store\<close>

lemma example_product_fields [simp]:
  "product_id example_product = js ''p1''" "price example_product = 999 / 100"
  by (simp_all add: example_product_def)

lemma find_Some_ex: "(\<exists>y. find P xs = Some y) = (\<exists>x\<in>set xs. P x)"
  by (induction xs) auto

lemma cart_addToCart:
  "cart (addToCart p q s) =
     (if \<exists>item\<in>set (cart s). product_id (product item) = product_id p
      then map (\<lambda>item. if product_id (product item) = product_id p
                        then item\<lparr>quantity := quantity item + q\<rparr> else item) (cart s)
      else cart s @ [\<lparr>product = p, quantity = q\<rparr>])"
  by (simp add: addToCart_def Let_def find_Some_ex)

lemma cart_removeFromCart:
  "cart (removeFromCart pid s) = filter (\<lambda>item. product_id (product item) \<noteq> pid) (cart s)"
  by (simp add: removeFromCart_def Let_def)

lemma cart_updateQuantity:
  "cart (updateQuantity pid q s) =
     (if q \<le> 0 then filter (\<lambda>item. product_id (product item) \<noteq> pid) (cart s)
      else map (\<lambda>item. if product_id (product item) = pid then item\<lparr>quantity := q\<rparr> else item)
             (cart s))"
  by (simp add: updateQuantity_def cart_removeFromCart Let_def)

lemma foldl_add_shift:
  fixes a :: "'a::comm_monoid_add"
  shows "foldl (\<lambda>sum x. sum + f x) a xs = a + sum_list (map f xs)"
  by (induction xs arbitrary: a) (simp_all add: add.assoc)

lemma reduce_quantity_sum: "reduce_quantity c = sum_list (map quantity c)"
  by (simp add: reduce_quantity_def foldl_add_shift)




lemma ids_add_existing:
  "ids (map (\<lambda>item. if product_id (product item) = pid
                     then item\<lparr>quantity := f item\<rparr> else item) c) = ids c"
  by (induction c) (simp_all add: ids_def)

lemma ids_filter: "ids (filter (\<lambda>item. product_id (product item) \<noteq> pid) c) = filter (\<lambda>i. i \<noteq> pid) (ids c)"
  by (induction c) (simp_all add: ids_def)

lemma wf_map_quantity:
  "list_all (\<lambda>item. wf_product (product item)) c \<Longrightarrow>
   list_all (\<lambda>item. wf_product (product item))
     (map (\<lambda>item. if product_id (product item) = pid then item\<lparr>quantity := f item\<rparr> else item) c)"
  by (induction c) simp_all

lemma wf_filter:
  "list_all P c \<Longrightarrow> list_all P (filter Q c)"
  by (induction c) simp_all

lemma inv_addToCart:
  assumes "persisted s" "cart_inv s" "wf_product p"
  shows "persisted (addToCart p q s) \<and> cart_inv (addToCart p q s)"
proof (cases "\<exists>item\<in>set (cart s). product_id (product item) = product_id p")
  case True
  then have c: "cart (addToCart p q s) =
      map (\<lambda>item. if product_id (product item) = product_id p
                  then item\<lparr>quantity := quantity item + q\<rparr> else item) (cart s)"
    by (simp add: cart_addToCart)
  have st: "localStorage (addToCart p q s) ''cart'' =
      Some (JSON_stringify (cart_to_json (cart (addToCart p q s))))"
    and n: "cartCount (addToCart p q s) = reduce_quantity (cart (addToCart p q s))"
    by (simp_all add: addToCart_def Let_def setItem_def)
  from assms(1) have "list_all (\<lambda>item. wf_product (product item)) (cart (addToCart p q s))"
    unfolding c persisted_def by (simp add: wf_map_quantity)
  moreover from assms(2) have "distinct (ids (cart (addToCart p q s)))"
    unfolding c cart_inv_def by (simp add: ids_add_existing)
  ultimately show ?thesis
    by (simp add: persisted_def cart_inv_def st n reduce_quantity_sum)
next
  case False
  then have c: "cart (addToCart p q s) = cart s @ [\<lparr>product = p, quantity = q\<rparr>]"
    by (simp add: cart_addToCart)
  have st: "localStorage (addToCart p q s) ''cart'' =
      Some (JSON_stringify (cart_to_json (cart (addToCart p q s))))"
    and n: "cartCount (addToCart p q s) = reduce_quantity (cart (addToCart p q s))"
    by (simp_all add: addToCart_def Let_def setItem_def)
  from assms(1,3) have "list_all (\<lambda>item. wf_product (product item)) (cart (addToCart p q s))"
    unfolding c persisted_def by simp
  moreover from assms(2) False have "distinct (ids (cart (addToCart p q s)))"
    unfolding c cart_inv_def by (auto simp add: ids_def)
  ultimately show ?thesis
    by (simp add: persisted_def cart_inv_def st n reduce_quantity_sum)
qed

lemma inv_removeFromCart:
  assumes "persisted s" "cart_inv s"
  shows "persisted (removeFromCart pid s) \<and> cart_inv (removeFromCart pid s)"
proof -
  have st: "localStorage (removeFromCart pid s) ''cart'' =
      Some (JSON_stringify (cart_to_json (cart (removeFromCart pid s))))"
    and n: "cartCount (removeFromCart pid s) = reduce_quantity (cart (removeFromCart pid s))"
    by (simp_all add: removeFromCart_def Let_def setItem_def)
  from assms(1) have "list_all (\<lambda>item. wf_product (product item)) (cart (removeFromCart pid s))"
    unfolding cart_removeFromCart persisted_def by (simp add: wf_filter)
  moreover from assms(2) have "distinct (ids (cart (removeFromCart pid s)))"
    unfolding cart_removeFromCart cart_inv_def by (simp add: ids_filter)
  ultimately show ?thesis
    by (simp add: persisted_def cart_inv_def st n reduce_quantity_sum)
qed

lemma inv_updateQuantity:
  assumes "persisted s" "cart_inv s"
  shows "persisted (updateQuantity pid q s) \<and> cart_inv (updateQuantity pid q s)"
proof (cases "q \<le> 0")
  case True
  then have "updateQuantity pid q s = removeFromCart pid s"
    by (simp add: updateQuantity_def)
  then show ?thesis using inv_removeFromCart [OF assms] by simp
next
  case False
  then have c: "cart (updateQuantity pid q s) =
      map (\<lambda>item. if product_id (product item) = pid then item\<lparr>quantity := q\<rparr> else item) (cart s)"
    by (simp add: cart_updateQuantity)
  from False have st: "localStorage (updateQuantity pid q s) ''cart'' =
      Some (JSON_stringify (cart_to_json (cart (updateQuantity pid q s))))"
    and n: "cartCount (updateQuantity pid q s) = reduce_quantity (cart (updateQuantity pid q s))"
    by (simp_all add: updateQuantity_def Let_def setItem_def)
  from assms(1) have "list_all (\<lambda>item. wf_product (product item)) (cart (updateQuantity pid q s))"
    unfolding c persisted_def by (simp add: wf_map_quantity)
  moreover from assms(2) have "distinct (ids (cart (updateQuantity pid q s)))"
    unfolding c cart_inv_def by (simp add: ids_add_existing)
  ultimately show ?thesis
    by (simp add: persisted_def cart_inv_def st n reduce_quantity_sum)
qed

lemma inv_clearCart: "persisted (clearCart s) \<and> cart_inv (clearCart s)"
  by (simp add: persisted_def cart_inv_def clearCart_def removeItem_def ids_def)

lemma inv_initial: "st ''cart'' = None \<Longrightarrow> persisted (initial_state st) \<and> cart_inv (initial_state st)"
  by (simp add: persisted_def cart_inv_def initial_state_def ids_def)

lemma inv_restart:
  assumes "persisted s" "cart_inv s"
  shows "\<exists>s'. hydrate (initial_state (localStorage s)) = Done s' \<and> cart s' = cart s \<and>
          cartCount s' = cartCount s \<and> persisted s' \<and> cart_inv s'"
proof -
  let ?s' = "(initial_state (localStorage s))\<lparr>cart := cart s, cartCount := reduce_quantity (cart s)\<rparr>"
  have h: "hydrate (initial_state (localStorage s)) = Done ?s'"
    by (rule hydrate_persisted [OF assms(1)])
  have f: "cart ?s' = cart s" "localStorage ?s' = localStorage s" "cartCount ?s' = cartCount s"
    using assms(2) by (simp_all add: initial_state_def cart_inv_def reduce_quantity_sum)
  have "persisted ?s'" using assms(1) unfolding persisted_def f by simp
  moreover have "cart_inv ?s'" using assms(2) unfolding cart_inv_def f by simp
  ultimately show ?thesis using h f by blast
qed

lemma inv_call:
  assumes "persisted s" "cart_inv s" "wf_call c"
  shows "\<exists>s'. call c s = Done s' \<and> persisted s' \<and> cart_inv s'"
proof (cases c)
  case (AddToCart p q)
  with assms inv_addToCart [of s p q] show ?thesis by simp
next
  case (RemoveFromCart pid)
  with assms inv_removeFromCart [of s pid] show ?thesis by simp
next
  case (UpdateQuantity pid q)
  with assms inv_updateQuantity [of s pid q] show ?thesis by simp
next
  case ClearCart
  with inv_clearCart [of s] show ?thesis by simp
next
  case Restart
  with inv_restart [OF assms(1,2)] show ?thesis by auto
qed

lemma inv_calls:
  assumes "persisted s" "cart_inv s" "list_all wf_call cs"
  shows "\<exists>s'. calls cs s = Done s' \<and> persisted s' \<and> cart_inv s'"
  using assms
proof (induction cs arbitrary: s)
  case Nil
  then show ?case by simp
next
  case (Cons c cs)
  from Cons.prems obtain s1 where s1: "call c s = Done s1" "persisted s1" "cart_inv s1"
    using inv_call [of s c] by auto
  from Cons.IH [OF s1(2,3)] Cons.prems(3) obtain s' where
    "calls cs s1 = Done s'" "persisted s'" "cart_inv s'" by auto
  with s1(1) show ?case by simp
qed



lemma positive_call_step:
  assumes "persisted s" "cart_inv s" "positive s" "wf_call c" "positive_call c"
  shows "\<exists>s'. call c s = Done s' \<and> persisted s' \<and> cart_inv s' \<and> positive s'"
proof -
  from inv_call [OF assms(1,2,4)] obtain s' where s': "call c s = Done s'" "persisted s'" "cart_inv s'"
    by blast
  have "positive s'"
  proof (cases c)
    case (AddToCart p q)
    with assms(3,5) s'(1) show ?thesis
      by (auto simp add: positive_def cart_addToCart list_all_iff split: if_splits)
         (fastforce simp add: add_pos_pos)+
  next
    case (RemoveFromCart pid)
    with assms(3) s'(1) show ?thesis
      by (auto simp add: positive_def cart_removeFromCart list_all_iff)
  next
    case (UpdateQuantity pid q)
    with assms(3) s'(1) show ?thesis
      by (auto simp add: positive_def cart_updateQuantity list_all_iff split: if_splits)
  next
    case ClearCart
    with s'(1) show ?thesis by (auto simp add: positive_def clearCart_def)
  next
    case Restart
    with inv_restart [OF assms(1,2)] s'(1) assms(3) show ?thesis
      by (auto simp add: positive_def)
  qed
  with s' show ?thesis by blast
qed

lemma positive_calls:
  assumes "persisted s" "cart_inv s" "positive s" "list_all wf_call cs" "list_all positive_call cs"
  shows "\<exists>s'. calls cs s = Done s' \<and> positive s'"
  using assms
proof (induction cs arbitrary: s)
  case Nil
  then show ?case by simp
next
  case (Cons c cs)
  from Cons.prems obtain s1 where s1: "call c s = Done s1" "persisted s1" "cart_inv s1" "positive s1"
    using positive_call_step [of s c] by auto
  from Cons.IH [OF s1(2,3,4)] Cons.prems(4,5) obtain s' where "calls cs s1 = Done s'" "positive s'"
    by auto
  with s1(1) show ?case by simp
qed

lemma wf_example_product: "wf_product example_product"
  by code_simp

lemma parse_not_json: "JSON_parse (js ''{not json'') = None"
  by code_simp

lemma parse_null: "JSON_parse (js ''null'') = Some JNull"
  by code_simp

lemma inv_example:
  "persisted (addToCart example_product q (initial_state Map.empty)) \<and>
   cart_inv (addToCart example_product q (initial_state Map.empty))"
  using inv_addToCart [OF _ _ wf_example_product] inv_initial [of Map.empty] by simp

subsection \<open>Stored values used as examples\<close>

lemma parse_null_array: "JSON_parse (js ''[null]'') = Some (JArr [JNull])"
  by code_simp

lemma parse_one_array: "JSON_parse (js ''[1]'') = Some (JArr [JNum 1])"
  by code_simp


section \<open>The claims\<close>




text \<open>
  C2. \<^verbatim>\<open>addToCart(product, quantity)\<close>: when the cart holds a line item with the product's
  id, the cart keeps its length and its order, the items with that id get \<open>quantity\<close> added
  and the others stay as they are; when it holds none, the line item
  \<^verbatim>\<open>{product, quantity}\<close> is appended at the end. Adding the product \<open>p1\<close> of price 9.99
  with quantity 2 and then with quantity 3 to the empty cart leaves one line item of
  quantity 5, and \<^verbatim>\<open>getTotal()\<close> is \<^verbatim>\<open>0 + 9.99 * 5\<close>, which is 49.95.
\<close>

theorem addToCart_spec:
  "((\<exists>item\<in>set (cart s). product_id (product item) = product_id p) \<longrightarrow>
      length (cart (addToCart p q s)) = length (cart s) \<and>
      (\<forall>i<length (cart s).
         cart (addToCart p q s) ! i =
           (if product_id (product (cart s ! i)) = product_id p
            then (cart s ! i)\<lparr>quantity := quantity (cart s ! i) + q\<rparr> else cart s ! i))) \<and>
   ((\<forall>item\<in>set (cart s). product_id (product item) \<noteq> product_id p) \<longrightarrow>
      cart (addToCart p q s) = cart s @ [\<lparr>product = p, quantity = q\<rparr>]) \<and>
   (let p1 = p0\<lparr>product_id := js ''p1'', price := 999 / 100\<rparr>;
        s2 = addToCart p1 3 (addToCart p1 2 (initial_state st))
    in cart s2 = [\<lparr>product = p1, quantity = 5\<rparr>] \<and> getTotal exact s2 = 4995 / 100 \<and>
       getTotal ar s2 = add ar (num ar 0) (mul ar (num ar (999 / 100)) (num ar 5)))"
  by (auto simp add: cart_addToCart Let_def initial_state_def getTotal_def exact_def)

theorem addToCart_spec_witness:
  "(\<exists>item\<in>set (cart (addToCart example_product 2 (initial_state Map.empty))).
      product_id (product item) = product_id example_product) \<and>
   cart (addToCart example_product 3 (addToCart example_product 2 (initial_state Map.empty))) ! 0 =
     \<lparr>product = example_product, quantity = 5\<rparr> \<and>
   cart (initial_state Map.empty) = [] \<and>
   cart (addToCart example_product 2 (initial_state Map.empty)) =
     [\<lparr>product = example_product, quantity = 2\<rparr>]"
  using addToCart_spec [of "addToCart example_product 2 (initial_state Map.empty)"
      example_product 3 example_product Map.empty exact]
    addToCart_spec [of "initial_state Map.empty" example_product 2 example_product Map.empty exact]
  by (simp add: initial_state_def)

text \<open>
  C3. \<^verbatim>\<open>updateQuantity(productId, quantity)\<close>: for a quantity of 0 or less the state after
  the call is the state after \<^verbatim>\<open>removeFromCart(productId)\<close>, in which no line item has
  that id; for a quantity above 0 the cart keeps its length and its order, the items with
  that id get exactly this quantity and every other item is unchanged.
\<close>

theorem updateQuantity_spec:
  "(q \<le> 0 \<longrightarrow>
      updateQuantity pid q s = removeFromCart pid s \<and>
      cart (updateQuantity pid q s) = filter (\<lambda>item. product_id (product item) \<noteq> pid) (cart s) \<and>
      (\<forall>item\<in>set (cart (updateQuantity pid q s)). product_id (product item) \<noteq> pid)) \<and>
   (0 < q \<longrightarrow>
      length (cart (updateQuantity pid q s)) = length (cart s) \<and>
      (\<forall>i<length (cart s).
         cart (updateQuantity pid q s) ! i =
           (if product_id (product (cart s ! i)) = pid
            then (cart s ! i)\<lparr>quantity := q\<rparr> else cart s ! i)))"
  by (auto simp add: cart_updateQuantity) (simp add: updateQuantity_def)

theorem updateQuantity_spec_witness:
  "(0::int) \<le> 0 \<and> (- 1::int) \<le> 0 \<and> (0::int) < 7 \<and>
   cart (updateQuantity (js ''p1'') 0 (addToCart example_product 2 (initial_state Map.empty))) = [] \<and>
   cart (updateQuantity (js ''p1'') (- 1) (addToCart example_product 2 (initial_state Map.empty))) = [] \<and>
   cart (updateQuantity (js ''p1'') 7 (addToCart example_product 2 (initial_state Map.empty))) ! 0 =
     \<lparr>product = example_product, quantity = 7\<rparr>"
proof -
  let ?s = "addToCart example_product 2 (initial_state Map.empty)"
  have c: "cart ?s = [\<lparr>product = example_product, quantity = 2\<rparr>]"
    by (simp add: cart_addToCart initial_state_def)
  have h0: "(0::int) \<le> 0" and h1: "(- 1::int) \<le> 0" and h7: "(0::int) < 7" and i: "0 < length (cart ?s)"
    by (simp_all add: c)
  have "cart (updateQuantity (js ''p1'') 0 ?s) =
      filter (\<lambda>item. product_id (product item) \<noteq> js ''p1'') (cart ?s)"
    using updateQuantity_spec [THEN conjunct1, THEN mp, OF h0, THEN conjunct2, THEN conjunct1] .
  moreover have "cart (updateQuantity (js ''p1'') (- 1) ?s) =
      filter (\<lambda>item. product_id (product item) \<noteq> js ''p1'') (cart ?s)"
    using updateQuantity_spec [THEN conjunct1, THEN mp, OF h1, THEN conjunct2, THEN conjunct1] .
  moreover have "cart (updateQuantity (js ''p1'') 7 ?s) ! 0 =
      (if product_id (product (cart ?s ! 0)) = js ''p1''
       then (cart ?s ! 0)\<lparr>quantity := 7\<rparr> else cart ?s ! 0)"
    using updateQuantity_spec [THEN conjunct2, THEN mp, OF h7, THEN conjunct2, THEN spec, THEN mp, OF i] .
  ultimately show ?thesis
    by (simp add: c)
qed

text \<open>
  C4. \<^verbatim>\<open>getTotal()\<close> is the sum, taken by JavaScript's \<^verbatim>\<open>+\<close> from 0 in cart order, of
  the products by JavaScript's \<^verbatim>\<open>*\<close> of the price in each item's product snapshot and
  the item's quantity, whatever that arithmetic is; where it does not round, it is the
  exact sum of price times quantity. It is a function of the current cart alone. The
  snapshot is the product passed when the line item was created: adding a product whose id
  is in the cart (with whatever price that object now carries) and setting a quantity
  change no snapshot.
\<close>

theorem getTotal_spec:
  "getTotal ar s =
     foldl (add ar) (num ar 0)
       (map (\<lambda>item. mul ar (num ar (price (product item))) (num ar (of_int (quantity item))))
          (cart s)) \<and>
   ((\<forall>r. num ex r = r) \<and> (\<forall>a b. add ex a b = a + b) \<and> (\<forall>a b. mul ex a b = a * b) \<longrightarrow>
      getTotal ex s = (\<Sum>item\<leftarrow>cart s. price (product item) * of_int (quantity item))) \<and>
   (cart s' = cart s \<longrightarrow> getTotal ar s' = getTotal ar s) \<and>
   ((\<exists>item\<in>set (cart s). product_id (product item) = product_id p') \<longrightarrow>
      map product (cart (addToCart p' q s)) = map product (cart s)) \<and>
   (0 < q \<longrightarrow> map product (cart (updateQuantity pid q s)) = map product (cart s))"
proof (intro conjI impI)
  show "getTotal ar s =
     foldl (add ar) (num ar 0)
       (map (\<lambda>item. mul ar (num ar (price (product item))) (num ar (of_int (quantity item))))
          (cart s))"
    by (simp add: getTotal_def foldl_map)
  show "getTotal ex s = (\<Sum>item\<leftarrow>cart s. price (product item) * of_int (quantity item))"
    if "(\<forall>r. num ex r = r) \<and> (\<forall>a b. add ex a b = a + b) \<and> (\<forall>a b. mul ex a b = a * b)"
    using that by (simp add: getTotal_def foldl_add_shift)
  show "getTotal ar s' = getTotal ar s" if "cart s' = cart s"
    using that by (simp add: getTotal_def)
  show "map product (cart (addToCart p' q s)) = map product (cart s)"
    if "\<exists>item\<in>set (cart s). product_id (product item) = product_id p'"
    using that by (simp add: cart_addToCart o_def)
  show "map product (cart (updateQuantity pid q s)) = map product (cart s)" if "0 < q"
    using that by (simp add: cart_updateQuantity o_def)
qed

theorem getTotal_spec_witness:
  "(\<forall>r. num exact r = r) \<and> (\<forall>a b. add exact a b = a + b) \<and> (\<forall>a b. mul exact a b = a * b) \<and>
   cart (navigateTo ''cart'' (addToCart example_product 2 (initial_state Map.empty))) =
     cart (addToCart example_product 2 (initial_state Map.empty)) \<and>
   (\<exists>item\<in>set (cart (addToCart example_product 2 (initial_state Map.empty))).
      product_id (product item) = product_id (example_product\<lparr>price := 20\<rparr>)) \<and>
   (0::int) < 4 \<and>
   getTotal exact (addToCart example_product 2 (initial_state Map.empty)) = 1998 / 100 \<and>
   getTotal cents (navigateTo ''cart''
     (addToCart (example_product\<lparr>price := 999 / 1000\<rparr>) 3 (initial_state Map.empty))) = 297 / 100 \<and>
   map (\<lambda>item. price (product item))
     (cart (addToCart (example_product\<lparr>price := 20\<rparr>) 4
        (addToCart example_product 2 (initial_state Map.empty)))) = [999 / 100] \<and>
   map product (cart (updateQuantity (js ''p1'') 4
        (addToCart example_product 2 (initial_state Map.empty)))) = [example_product]"
proof -
  let ?s = "addToCart example_product 2 (initial_state Map.empty)"
  let ?p = "example_product\<lparr>price := 20\<rparr>"
  let ?t = "addToCart (example_product\<lparr>price := 999 / 1000\<rparr>) 3 (initial_state Map.empty)"
  have c: "cart ?s = [\<lparr>product = example_product, quantity = 2\<rparr>]"
    by (simp add: cart_addToCart initial_state_def)
  have ct: "cart ?t = [\<lparr>product = example_product\<lparr>price := 999 / 1000\<rparr>, quantity = 3\<rparr>]"
    by (simp add: cart_addToCart initial_state_def)
  have h0: "(\<forall>r. num exact r = r) \<and> (\<forall>a b. add exact a b = a + b) \<and> (\<forall>a b. mul exact a b = a * b)"
    by (simp add: exact_def)
  have h1: "cart (navigateTo ''cart'' ?s) = cart ?s" and h1': "cart (navigateTo ''cart'' ?t) = cart ?t"
    by (simp_all add: navigateTo_def)
  have h2: "\<exists>item\<in>set (cart ?s). product_id (product item) = product_id ?p"
    by (simp add: c)
  have h3: "(0::int) < 4"
    by simp
  have "getTotal exact ?s = (\<Sum>item\<leftarrow>cart ?s. price (product item) * of_int (quantity item))"
    using getTotal_spec [THEN conjunct2, THEN conjunct1, THEN mp, OF h0] .
  then have e: "getTotal exact ?s = 1998 / 100"
    by (simp add: c)
  have "getTotal cents (navigateTo ''cart'' ?t) = getTotal cents ?t"
    using getTotal_spec [THEN conjunct2, THEN conjunct2, THEN conjunct1, THEN mp, OF h1'] .
  moreover have "getTotal cents ?t =
     foldl (add cents) (num cents 0)
       (map (\<lambda>item. mul cents (num cents (price (product item))) (num cents (of_int (quantity item))))
          (cart ?t))"
    using getTotal_spec [THEN conjunct1] .
  moreover have "add cents (num cents 0) (mul cents (num cents (999 / 1000)) (num cents 3)) = 297 / 100"
    by code_simp
  ultimately have t: "getTotal cents (navigateTo ''cart'' ?t) = 297 / 100"
    by (simp add: ct)
  have "map product (cart (addToCart ?p 4 ?s)) = map product (cart ?s)"
    using getTotal_spec [THEN conjunct2, THEN conjunct2, THEN conjunct2, THEN conjunct1, THEN mp, OF h2] .
  then have "map (price \<circ> product) (cart (addToCart ?p 4 ?s)) = map price (map product (cart ?s))"
    by (simp only: map_map [symmetric])
  then have a: "map (\<lambda>item. price (product item)) (cart (addToCart ?p 4 ?s)) = [999 / 100]"
    by (simp add: c o_def)
  have "map product (cart (updateQuantity (js ''p1'') 4 ?s)) = map product (cart ?s)"
    using getTotal_spec [THEN conjunct2, THEN conjunct2, THEN conjunct2, THEN conjunct2, THEN mp, OF h3] .
  then have u: "map product (cart (updateQuantity (js ''p1'') 4 ?s)) = [example_product]"
    by (simp add: c)
  show ?thesis
    using h0 h1 h2 h3 e t a u by blast
qed

text \<open>
  C5. Nothing in \<^verbatim>\<open>addToCart\<close> looks at the sign of the quantity: adding a product with
  quantity 0 to the empty cart stores a line item of quantity 0, in memory and in the
  persisted cart (a restart reads it back), and adding \<open>-3\<close> to a line item of quantity 1
  leaves quantity \<open>-2\<close>.
\<close>

theorem addToCart_nonpositive_quantity:
  "cart (addToCart example_product 0 (initial_state Map.empty)) =
     [\<lparr>product = example_product, quantity = 0\<rparr>] \<and>
   localStorage (addToCart example_product 0 (initial_state Map.empty)) ''cart'' =
     Some (JSON_stringify (cart_to_json [\<lparr>product = example_product, quantity = 0\<rparr>])) \<and>
   (\<exists>s. calls [AddToCart example_product 0, Restart] (initial_state Map.empty) = Done s \<and>
        cart s = [\<lparr>product = example_product, quantity = 0\<rparr>]) \<and>
   cart (addToCart example_product (- 3) (addToCart example_product 1 (initial_state Map.empty))) =
     [\<lparr>product = example_product, quantity = - 2\<rparr>]"
proof -
  let ?a = "addToCart example_product 0 (initial_state Map.empty)"
  have c: "cart ?a = [\<lparr>product = example_product, quantity = 0\<rparr>]"
    by (simp add: cart_addToCart initial_state_def)
  have st: "localStorage ?a ''cart'' =
      Some (JSON_stringify (cart_to_json [\<lparr>product = example_product, quantity = 0\<rparr>]))"
    by (simp add: addToCart_def Let_def initial_state_def setItem_def)
  obtain s where "hydrate (initial_state (localStorage ?a)) = Done s" "cart s = cart ?a"
    using inv_restart [of ?a] inv_example [of 0] by blast
  then have r: "\<exists>s. calls [AddToCart example_product 0, Restart] (initial_state Map.empty) = Done s \<and>
        cart s = [\<lparr>product = example_product, quantity = 0\<rparr>]"
    by (simp add: c)
  have n: "cart (addToCart example_product (- 3) (addToCart example_product 1 (initial_state Map.empty))) =
     [\<lparr>product = example_product, quantity = - 2\<rparr>]"
    by (simp add: cart_addToCart initial_state_def)
  show ?thesis using c st r n by blast
qed

text \<open>
  C6. For every state reached from a store with no persisted cart by cart calls that add
  serialisable products, hydrating a fresh store from the \<^verbatim>\<open>localStorage\<close> of that state
  succeeds and gives the same line items in the same order and the same item count.
\<close>

theorem persist_then_hydrate:
  assumes "st ''cart'' = None" and "list_all wf_call cs"
    and "calls cs (initial_state st) = Done s"
  shows "\<exists>s'. hydrate (initial_state (localStorage s)) = Done s' \<and>
              cart s' = cart s \<and> cartCount s' = cartCount s"
proof -
  from assms(1,2) obtain s1 where "calls cs (initial_state st) = Done s1" "persisted s1" "cart_inv s1"
    using inv_calls [of "initial_state st" cs] inv_initial [of st] by auto
  with assms(3) have "persisted s" "cart_inv s" by simp_all
  from inv_restart [OF this] show ?thesis by blast
qed

theorem persist_then_hydrate_witness:
  "Map.empty ''cart'' = None \<and>
   list_all wf_call [AddToCart example_product 2, AddToCart example_product 3] \<and>
   calls [AddToCart example_product 2, AddToCart example_product 3] (initial_state Map.empty) =
     Done (addToCart example_product 3 (addToCart example_product 2 (initial_state Map.empty))) \<and>
   (\<exists>s'. hydrate (initial_state (localStorage
        (addToCart example_product 3 (addToCart example_product 2 (initial_state Map.empty))))) = Done s' \<and>
      cart s' = [\<lparr>product = example_product, quantity = 5\<rparr>] \<and> cartCount s' = 5)"
proof -
  let ?cs = "[AddToCart example_product 2, AddToCart example_product 3]"
  let ?s = "addToCart example_product 3 (addToCart example_product 2 (initial_state Map.empty))"
  have h1: "Map.empty ''cart'' = None" by simp
  have h2: "list_all wf_call ?cs" by (simp add: wf_example_product)
  have h3: "calls ?cs (initial_state Map.empty) = Done ?s" by simp
  have c: "cart ?s = [\<lparr>product = example_product, quantity = 5\<rparr>]"
    by (simp add: cart_addToCart initial_state_def)
  have n: "cartCount ?s = 5"
    by (simp add: addToCart_def Let_def initial_state_def reduce_quantity_def)
  from persist_then_hydrate [OF h1 h2 h3] c n
  have "\<exists>s'. hydrate (initial_state (localStorage ?s)) = Done s' \<and>
      cart s' = [\<lparr>product = example_product, quantity = 5\<rparr>] \<and> cartCount s' = 5"
    by simp
  with h1 h2 h3 show ?thesis by blast
qed

text \<open>
  C7. Hydration starts from the empty cart when the \<open>cart\<close> key is absent or holds the
  empty string. It throws a \<^verbatim>\<open>SyntaxError\<close> on a text that is not JSON, and a
  \<^verbatim>\<open>TypeError\<close> on the JSON texts \<^verbatim>\<open>null\<close> and \<^verbatim>\<open>[null]\<close>; on \<^verbatim>\<open>[1]\<close> it does not
  throw and takes the array, which holds no line item, as its cart.
\<close>

theorem hydrate_malformed:
  "hydrate (initial_state Map.empty) = Done (initial_state Map.empty) \<and>
   hydrate (initial_state [''cart'' \<mapsto> []]) = Done (initial_state [''cart'' \<mapsto> []]) \<and>
   hydrate (initial_state [''cart'' \<mapsto> js ''{not json'']) = Throws SyntaxError \<and>
   hydrate (initial_state [''cart'' \<mapsto> js ''null'']) = Throws TypeError \<and>
   hydrate (initial_state [''cart'' \<mapsto> js ''[null]'']) = Throws TypeError \<and>
   hydrate (initial_state [''cart'' \<mapsto> js ''[1]'']) = Foreign [JNum 1]"
proof -
  have e: "js ''{not json'' \<noteq> []" "js ''null'' \<noteq> []" "js ''[null]'' \<noteq> []" "js ''[1]'' \<noteq> []"
    by (simp_all add: js_def)
  have i: "item_of_json (JNum 1) = None"
    by (simp add: item_of_json_def read_item_def)
  show ?thesis
    by (simp add: hydrate_def initial_state_def parse_not_json parse_null parse_null_array
        parse_one_array e quantity_throws_def i)
qed

text \<open>
  C8, in the form that holds of the code. Start-up of the session manager, with a
  (non-empty) session token in
  storage, for which the profile request is therefore sent: when the request is rejected,
  for whatever reason, the manager ends with no user, not loading any more, and the token
  removed from storage, no other key being touched; when the request resolves, whatever
  its body, the body is the user and the storage is as it was, token included.
\<close>

theorem startup_failed_fetch:
  assumes "st ''session_token'' = Some token" and "token \<noteq> []"
  shows "(backend token = Rejected e \<longrightarrow>
            user (authStartup backend (initial_state st)) = JNull \<and>
            \<not> authenticated (authStartup backend (initial_state st)) \<and>
            loading (authStartup backend (initial_state st)) = False \<and>
            localStorage (authStartup backend (initial_state st)) ''session_token'' = None \<and>
            (\<forall>k. k \<noteq> ''session_token'' \<longrightarrow>
               localStorage (authStartup backend (initial_state st)) k = st k)) \<and>
         (backend token = Resolved data \<longrightarrow>
            user (authStartup backend (initial_state st)) = data \<and>
            loading (authStartup backend (initial_state st)) = False \<and>
            localStorage (authStartup backend (initial_state st)) = st)"
  using assms
  by (simp add: authStartup_def fetchProfile_def initial_state_def removeItem_def authenticated_def)

theorem startup_failed_fetch_witness:
  "[''session_token'' \<mapsto> js ''stale''] ''session_token'' = Some (js ''stale'') \<and>
   js ''stale'' \<noteq> [] \<and>
   rejecting_backend (js ''stale'') = Rejected (BadStatus 401) \<and>
   user (authStartup rejecting_backend (initial_state [''session_token'' \<mapsto> js ''stale''])) = JNull \<and>
   localStorage (authStartup rejecting_backend (initial_state [''session_token'' \<mapsto> js ''stale'']))
     ''session_token'' = None \<and>
   ''cart'' \<noteq> ''session_token'' \<and>
   localStorage (authStartup rejecting_backend (initial_state [''session_token'' \<mapsto> js ''stale'']))
     ''cart'' = None \<and>
   garbling_backend (js ''stale'') = Resolved (JStr (js ''<html>Bad Gateway</html>'')) \<and>
   localStorage (authStartup garbling_backend (initial_state [''session_token'' \<mapsto> js ''stale''])) =
     [''session_token'' \<mapsto> js ''stale'']"
proof -
  let ?st = "[''session_token'' \<mapsto> js ''stale'']"
  have h1: "?st ''session_token'' = Some (js ''stale'')" by simp
  have h2: "js ''stale'' \<noteq> []" by (simp add: js_def)
  have h3: "rejecting_backend (js ''stale'') = Rejected (BadStatus 401)"
    by (simp add: rejecting_backend_def)
  have h4: "garbling_backend (js ''stale'') = Resolved (JStr (js ''<html>Bad Gateway</html>''))"
    by (simp add: garbling_backend_def)
  have h5: "''cart'' \<noteq> ''session_token''" by simp
  note r = startup_failed_fetch [where st = ?st and token = "js ''stale''"
      and backend = rejecting_backend, OF h1 h2, THEN conjunct1, THEN mp, OF h3]
  note g = startup_failed_fetch [where st = ?st and token = "js ''stale''"
      and backend = garbling_backend, OF h1 h2, THEN conjunct2, THEN mp, OF h4]
  note r1 = r [THEN conjunct1]
  note r4 = r [THEN conjunct2, THEN conjunct2, THEN conjunct2, THEN conjunct1]
  note r5 = r [THEN conjunct2, THEN conjunct2, THEN conjunct2, THEN conjunct2, THEN spec,
      THEN mp, OF h5]
  note g3 = g [THEN conjunct2, THEN conjunct2]
  have c: "localStorage (authStartup rejecting_backend (initial_state ?st)) ''cart'' = None"
    by (simp only: r5) simp
  show ?thesis
    by (intro conjI) (rule h1 h2 h3 h4 h5 r1 r4 c g3)+
qed

text \<open>
  C8 as stated fails for a malformed response: a reply with status 200 and a body that is
  no profile resolves, so that the body becomes the user, the components take the session
  for authenticated, and the token stays in storage.
\<close>

theorem startup_malformed_response:
  "user (authStartup garbling_backend (initial_state [''session_token'' \<mapsto> js ''stale''])) =
     JStr (js ''<html>Bad Gateway</html>'') \<and>
   authenticated (authStartup garbling_backend (initial_state [''session_token'' \<mapsto> js ''stale''])) \<and>
   localStorage (authStartup garbling_backend (initial_state [''session_token'' \<mapsto> js ''stale'']))
     ''session_token'' = Some (js ''stale'')"
  by (simp add: authStartup_def fetchProfile_def initial_state_def garbling_backend_def
      authenticated_def js_def)

text \<open>
  C9. The view router renders one screen, the value of \<open>renderView\<close>: after
  \<^verbatim>\<open>navigateTo(v)\<close> it is the screen named \<open>v\<close> when \<open>v\<close> is one of \<open>home\<close>, \<open>products\<close>,
  \<open>cart\<close>, \<open>orders\<close>, \<open>profile\<close>, and \<open>Home\<close> for every other value; after
  \<^verbatim>\<open>navigateTo("orders")\<close> and then \<^verbatim>\<open>navigateTo("bogus")\<close> it is \<open>Home\<close>.
\<close>

theorem renderView_navigateTo:
  "renderView (navigateTo ''home'' s) = Home \<and>
   renderView (navigateTo ''products'' s) = Products \<and>
   renderView (navigateTo ''cart'' s) = Cart \<and>
   renderView (navigateTo ''orders'' s) = Orders \<and>
   renderView (navigateTo ''profile'' s) = Profile \<and>
   (v \<notin> {''home'', ''products'', ''cart'', ''orders'', ''profile''} \<longrightarrow>
      renderView (navigateTo v s) = Home) \<and>
   renderView (navigateTo ''bogus'' (navigateTo ''orders'' s)) = Home"
  by (simp add: renderView_def navigateTo_def)

theorem renderView_navigateTo_witness:
  "''categories'' \<notin> {''home'', ''products'', ''cart'', ''orders'', ''profile''} \<and>
   renderView (navigateTo ''categories'' (initial_state Map.empty)) = Home \<and>
   renderView (navigateTo ''orders'' (initial_state Map.empty)) = Orders"
  using renderView_navigateTo [of "initial_state Map.empty" "''categories''"]
  by simp

text \<open>
  C10. \<^verbatim>\<open>logout()\<close> changes the session only: the cart, the item count, the total, the
  selected view and every storage key other than \<open>session_token\<close> (the persisted cart
  among them) are as before; the session token is removed and the user is absent.
\<close>

theorem logout_frame:
  "cart (logout s) = cart s \<and> cartCount (logout s) = cartCount s \<and>
   localStorage (logout s) ''cart'' = localStorage s ''cart'' \<and>
   getTotal ar (logout s) = getTotal ar s \<and>
   currentView (logout s) = currentView s \<and> loading (logout s) = loading s \<and>
   (\<forall>k. k \<noteq> ''session_token'' \<longrightarrow> localStorage (logout s) k = localStorage s k) \<and>
   localStorage (logout s) ''session_token'' = None \<and> user (logout s) = JNull"
  by (simp add: logout_def removeItem_def getTotal_def)

theorem logout_frame_witness:
  "''cart'' \<noteq> ''session_token'' \<and>
   cart (logout (addToCart example_product 2
     ((initial_state [''session_token'' \<mapsto> js ''tok''])\<lparr>user := example_user\<rparr>))) =
     [\<lparr>product = example_product, quantity = 2\<rparr>] \<and>
   localStorage (logout (addToCart example_product 2
     ((initial_state [''session_token'' \<mapsto> js ''tok''])\<lparr>user := example_user\<rparr>))) ''cart'' =
   localStorage (addToCart example_product 2
     ((initial_state [''session_token'' \<mapsto> js ''tok''])\<lparr>user := example_user\<rparr>)) ''cart'' \<and>
   user (logout (addToCart example_product 2
     ((initial_state [''session_token'' \<mapsto> js ''tok''])\<lparr>user := example_user\<rparr>))) = JNull"
  using logout_frame [of "addToCart example_product 2
     ((initial_state [''session_token'' \<mapsto> js ''tok''])\<lparr>user := example_user\<rparr>)" exact]
  by (simp add: cart_addToCart initial_state_def)

end
